theory Spec2Isabelle
  imports Main "HOL-Library.Word" "HOL-Library.Sublist"
begin

unbundle bit_operations_syntax

section \<open>Signal table schema (mkr_format/signal_table_schema.cpp)\<close>

subsection \<open>The columnar container's types, as far as the schema code inspects them\<close>

text \<open>
  The schema code only looks at a column type through \<^verbatim>\<open>id()\<close>, \<^verbatim>\<open>name()\<close>,
  \<^verbatim>\<open>extension_name()\<close> of an extension type and \<^verbatim>\<open>value_type()\<close> of a large list.
  \<open>DataType\<close> is the fragment of the container library's type language that is needed to
  exercise every branch; \<open>TypeId\<close> is its \<^verbatim>\<open>arrow::Type\<close> tag.
\<close>

datatype TypeId =
  UINT8_id | INT16_id | INT32_id | UINT32_id | STRING_id | BINARY_id
  | FIXED_SIZE_BINARY_id | LIST_id | LARGE_LIST_id | EXTENSION_id

datatype DataType =
  UINT8 | INT16 | INT32 | UINT32 | STRING | BINARY
  | FIXED_SIZE_BINARY nat
  | LIST DataType
  | LARGE_LIST DataType
  | EXTENSION string DataType

fun id_of :: "DataType \<Rightarrow> TypeId" where
  "id_of UINT8 = UINT8_id"
| "id_of INT16 = INT16_id"
| "id_of INT32 = INT32_id"
| "id_of UINT32 = UINT32_id"
| "id_of STRING = STRING_id"
| "id_of BINARY = BINARY_id"
| "id_of (FIXED_SIZE_BINARY w) = FIXED_SIZE_BINARY_id"
| "id_of (LIST t) = LIST_id"
| "id_of (LARGE_LIST t) = LARGE_LIST_id"
| "id_of (EXTENSION n t) = EXTENSION_id"

fun name_of :: "DataType \<Rightarrow> string" where
  "name_of UINT8 = ''uint8''"
| "name_of INT16 = ''int16''"
| "name_of INT32 = ''int32''"
| "name_of UINT32 = ''uint32''"
| "name_of STRING = ''utf8''"
| "name_of BINARY = ''binary''"
| "name_of (FIXED_SIZE_BINARY w) = ''fixed_size_binary''"
| "name_of (LIST t) = ''list''"
| "name_of (LARGE_LIST t) = ''large_list''"
| "name_of (EXTENSION n t) = ''extension''"

text \<open>
  The two downcasts of the source, \<^verbatim>\<open>static_cast<arrow::ExtensionType*>\<close> and
  \<^verbatim>\<open>static_cast<arrow::LargeListType*>\<close>, are only executed after the tag has been
  checked; the accessors below are only called under the same checks.
\<close>

fun extension_name :: "DataType \<Rightarrow> string" where
  "extension_name (EXTENSION n t) = n"
| "extension_name t = []"

fun value_type :: "DataType \<Rightarrow> DataType" where
  "value_type (LARGE_LIST t) = t"
| "value_type (LIST t) = t"
| "value_type t = t"

record Field =
  name :: string
  type :: DataType

type_synonym KeyValueMetadata = "(string \<times> string) list"

record Schema =
  schema_fields :: "Field list"
  schema_metadata :: "KeyValueMetadata option"

definition field :: "string \<Rightarrow> DataType \<Rightarrow> Field" where
  "field n t = \<lparr>name = n, type = t\<rparr>"

definition schema :: "Field list \<Rightarrow> KeyValueMetadata option \<Rightarrow> Schema" where
  "schema fs md = \<lparr>schema_fields = fs, schema_metadata = md\<rparr>"

text \<open>
  \<^verbatim>\<open>Schema::GetFieldIndex\<close> of the container library: the position of the field with
  the given name, and \<open>-1\<close> when no field or more than one field has that name.
\<close>

definition GetFieldIndex :: "Schema \<Rightarrow> string \<Rightarrow> int" where
  "GetFieldIndex s n =
     (case filter (\<lambda>i. name (schema_fields s ! i) = n) [0..<length (schema_fields s)] of
        [i] \<Rightarrow> int i
      | _ \<Rightarrow> - 1)"

subsection \<open>The schema builder and the validator\<close>

text \<open>
  \<^verbatim>\<open>SignalTableSchemaDescription\<close> is declared in a header that is not among the sources;
  the validator fills it with the three column positions, in the order \<open>read_id\<close>,
  \<open>signal\<close>, \<open>samples\<close>.
\<close>

record SignalTableSchemaDescription =
  loc_read_id :: int
  loc_signal :: int
  loc_samples :: int

datatype Status = TypeError string

definition quoted :: "string \<Rightarrow> string" where
  "quoted s = [CHR 0x27] @ s @ [CHR 0x27]"

text \<open>
  Modelled from the spec: \<^verbatim>\<open>uuid()\<close> is declared in mkr_format/types.h, which is not among
  the sources. The spec has the read identifier column as a fixed-width 128-bit extension
  type: an extension type over a fixed-size binary of 16 bytes. Its extension name is the
  one under which the validator of the same file looks for it.
\<close>

definition uuid :: DataType where
  "uuid = EXTENSION ''minknow.uuid'' (FIXED_SIZE_BINARY 16)"


definition read_signal_table_schema :: "Schema \<Rightarrow> Status + SignalTableSchemaDescription" where
  "read_signal_table_schema s =
     (let read_id_field_idx = GetFieldIndex s ''read_id'' in
      if read_id_field_idx = - 1 then
        Inl (TypeError (''Schema missing field '' @ quoted ''read_id''))
      else let read_id_type = type (schema_fields s ! nat read_id_field_idx) in
      if id_of read_id_type \<noteq> EXTENSION_id then
        Inl (TypeError (''Schema field 'read_id' is incorrect type: ''
                        @ quoted (name_of read_id_type)))
      else if extension_name read_id_type \<noteq> ''minknow.uuid'' then
        Inl (TypeError ''Schema field 'read_id' is incorrect extension type'')
      else
      let signal_field_idx = GetFieldIndex s ''signal'' in
      if signal_field_idx = - 1 then
        Inl (TypeError (''Schema missing field '' @ quoted ''signal''))
      else let signal_type = type (schema_fields s ! nat signal_field_idx) in
      if id_of signal_type \<noteq> LARGE_LIST_id then
        Inl (TypeError (''Schema field 'signal' is incorrect type: ''
                        @ quoted (name_of signal_type)))
      else if id_of (value_type signal_type) \<noteq> INT16_id then
        Inl (TypeError ''Schema field 'signal' list value type is incorrect type'')
      else
      let samples_field_idx = GetFieldIndex s ''samples'' in
      if samples_field_idx = - 1 then
        Inl (TypeError (''Schema missing field '' @ quoted ''samples''))
      else let samples_type = type (schema_fields s ! nat samples_field_idx) in
      if id_of samples_type \<noteq> UINT32_id then
        Inl (TypeError (''Schema field 'samples' is incorrect type: ''
                        @ quoted (name_of samples_type)))
      else
        Inr \<lparr>loc_read_id = read_id_field_idx, loc_signal = signal_field_idx,
             loc_samples = samples_field_idx\<rparr>)"

subsection \<open>What the validator accepts, stated column by column\<close>

text \<open>
  The type checks of the validator, read off its three blocks: \<open>read_id\<close> must carry the
  extension tag and the extension name \<open>minknow.uuid\<close>, \<open>signal\<close> must be a large list of
  16-bit signed integers, \<open>samples\<close> an unsigned 32-bit integer. A column is accepted when
  the lookup by name finds it and its type passes the check for that name.
\<close>

definition is_uuid_extension :: "DataType \<Rightarrow> bool" where
  "is_uuid_extension t = (case t of EXTENSION n st \<Rightarrow> n = ''minknow.uuid'' | _ \<Rightarrow> False)"

definition required_columns :: "string list" where
  "required_columns = [''read_id'', ''signal'', ''samples'']"

definition required_type :: "string \<Rightarrow> DataType \<Rightarrow> bool" where
  "required_type c t =
     (if c = ''read_id'' then is_uuid_extension t
      else if c = ''signal'' then t = LARGE_LIST INT16
      else t = UINT32)"

definition column_accepted :: "Schema \<Rightarrow> string \<Rightarrow> bool" where
  "column_accepted s c =
     (GetFieldIndex s c \<noteq> - 1 \<and>
      required_type c (type (schema_fields s ! nat (GetFieldIndex s c))))"

text \<open>\<open>column_at s n i\<close>: the schema has exactly one field called \<open>n\<close>, at position \<open>i\<close>.\<close>

definition column_at :: "Schema \<Rightarrow> string \<Rightarrow> nat \<Rightarrow> bool" where
  "column_at s n i =
     (i < length (schema_fields s) \<and> name (schema_fields s ! i) = n \<and>
      (\<forall>j<length (schema_fields s). name (schema_fields s ! j) = n \<longrightarrow> j = i))"

section \<open>Signal codec (pod5_format/signal_compression.cpp)\<close>

type_synonym byte = "8 word"
type_synonym sample = "16 word"

subsection \<open>The variable-byte transform\<close>

text \<open>
  Modelled from the spec: the headers pod5_format/svb16/encode.hpp and decode.hpp that
  declare \<^verbatim>\<open>svb16::encode\<close> and \<^verbatim>\<open>svb16_max_encoded_length\<close> are not among the sources.
  The zigzag map of a signed 16-bit delta, \<open>(x << 1) ^ (x >> 15)\<close> with an arithmetic
  right shift.
\<close>

definition zigzag :: "sample \<Rightarrow> 16 word" where
  "zigzag x = push_bit 1 x XOR signed_drop_bit 15 x"

text \<open>
  Modelled from the spec: the first-difference series of the samples, the predecessor of
  the first sample being \<open>prev\<close> (0 at the start); the subtraction is that of 16-bit values.
\<close>

fun delta :: "sample \<Rightarrow> sample list \<Rightarrow> sample list" where
  "delta prev [] = []"
| "delta prev (x # xs) = (x - prev) # delta x xs"

text \<open>
  Modelled from the spec: a zigzag value is written in one byte when it fits and in two
  bytes (low byte first) otherwise; its length code is the number of bytes minus one.
\<close>

definition length_code :: "16 word \<Rightarrow> nat" where
  "length_code u = (if u < 256 then 0 else 1)"

definition data_bytes :: "16 word \<Rightarrow> byte list" where
  "data_bytes u = (if u < 256 then [ucast u] else [ucast u, ucast (drop_bit 8 u)])"

text \<open>
  Modelled from the spec: one descriptor byte carries the 2-bit length codes of four
  consecutive values, the first value in the two lowest bits; the last descriptor byte of
  a stream may carry fewer than four codes.
\<close>

fun descriptor_byte :: "16 word list \<Rightarrow> byte" where
  "descriptor_byte [] = 0"
| "descriptor_byte (u # us) = of_nat (length_code u) OR push_bit 2 (descriptor_byte us)"

fun descriptors :: "16 word list \<Rightarrow> byte list" where
  "descriptors (a # b # c # d # rest) = descriptor_byte [a, b, c, d] # descriptors rest"
| "descriptors [] = []"
| "descriptors us = [descriptor_byte us]"

text \<open>
  Modelled from the spec: \<^verbatim>\<open>svb16::encode<int16_t, UseDelta, UseZigzag>\<close> with both
  switches on, as \<^verbatim>\<open>compress_signal\<close> calls it: delta, zigzag, then the descriptor bytes
  followed by the data bytes. The C function returns the number of bytes written; here that
  is the length of the list.
\<close>

definition svb16_encode :: "sample list \<Rightarrow> byte list" where
  "svb16_encode samples =
     (let us = map zigzag (delta 0 samples)
      in descriptors us @ concat (map data_bytes us))"

text \<open>
  Modelled from the spec: \<^verbatim>\<open>svb16_max_encoded_length\<close>, the closed form
  \<open>ceil(n/4) + 2*n\<close>: one descriptor byte per four samples, at most two data bytes per
  sample.
\<close>

definition svb16_max_encoded_length :: "nat \<Rightarrow> nat" where
  "svb16_max_encoded_length n = (n + 3) div 4 + 2 * n"

text \<open>
  Modelled from the spec: the inverse of the zigzag map, \<open>(u >> 1) ^ -(u & 1)\<close>; the
  header decode.hpp that declares \<^verbatim>\<open>svb16::decode\<close> is not among the sources.
\<close>

definition unzigzag :: "16 word \<Rightarrow> sample" where
  "unzigzag u = drop_bit 1 u XOR - (u AND 1)"

text \<open>Modelled from the spec: the prefix sum that undoes the delta series.\<close>

fun undelta :: "sample \<Rightarrow> sample list \<Rightarrow> sample list" where
  "undelta prev [] = []"
| "undelta prev (d # ds) = (prev + d) # undelta (prev + d) ds"

text \<open>
  Modelled from the spec: the length codes of the first \<open>n\<close> values, read from the
  descriptor bytes, four codes to a byte.
\<close>

fun length_codes :: "nat \<Rightarrow> byte list \<Rightarrow> nat list" where
  "length_codes 0 keys = []"
| "length_codes (Suc n) [] = []"
| "length_codes (Suc n) (k # keys) =
     take (Suc n) [unat (k AND 3), unat (drop_bit 2 k AND 3),
                   unat (drop_bit 4 k AND 3), unat (drop_bit 6 k AND 3)]
     @ length_codes (Suc n - 4) keys"

text \<open>
  Modelled from the spec: the values read from the data bytes under the given length
  codes, with the bytes left over; \<open>None\<close> when the data bytes run out or a code is not
  that of one or two bytes.
\<close>

fun read_values :: "nat list \<Rightarrow> byte list \<Rightarrow> (16 word list \<times> byte list) option" where
  "read_values [] data = Some ([], data)"
| "read_values (c # cs) data =
     (if c = 0 then
        (case data of
           b # rest \<Rightarrow>
             (case read_values cs rest of
                None \<Rightarrow> None
              | Some (us, rest') \<Rightarrow> Some (ucast b # us, rest'))
         | [] \<Rightarrow> None)
      else if c = 1 then
        (case data of
           lo # hi # rest \<Rightarrow>
             (case read_values cs rest of
                None \<Rightarrow> None
              | Some (us, rest') \<Rightarrow> Some ((ucast lo OR push_bit 8 (ucast hi)) # us, rest'))
         | _ \<Rightarrow> None)
      else None)"

text \<open>
  Modelled from the spec: \<open>decode_transform(bytes, expected_count)\<close>, the decoder of the
  transform as the spec has it: it is told how many samples to produce, reads that many
  length codes and values, undoes zigzag and delta, and yields the number of bytes it
  consumed with the samples; \<open>None\<close> on a shortfall of bytes.
\<close>

definition decode_transform :: "nat \<Rightarrow> byte list \<Rightarrow> (nat \<times> sample list) option" where
  "decode_transform expected_count bytes =
     (let key_length = (expected_count + 3) div 4
      in if length bytes < key_length then None
         else case read_values (length_codes expected_count (take key_length bytes))
                               (drop key_length bytes) of
                None \<Rightarrow> None
              | Some (us, rest) \<Rightarrow>
                  Some (length bytes - length rest, undelta 0 (map unzigzag us)))"

subsection \<open>The entropy compressor\<close>

text \<open>
  The four entry points of the external compressor library that the codec calls. A
  \<^verbatim>\<open>size_t\<close> result for which \<^verbatim>\<open>ZSTD_isError\<close> holds is \<open>None\<close>; so is a result of
  \<^verbatim>\<open>ZSTD_getFrameContentSize\<close> that the source's \<^verbatim>\<open>ZSTD_isError\<close> test classifies as an
  error. \<open>ZSTD_compress Z dstCapacity src level\<close> yields the bytes written to the
  destination, whose number is the C return value; likewise \<open>ZSTD_decompress\<close>.
\<close>

record zstd =
  ZSTD_compressBound :: "nat \<Rightarrow> nat option"
  ZSTD_compress :: "nat \<Rightarrow> byte list \<Rightarrow> int \<Rightarrow> byte list option"
  ZSTD_getFrameContentSize :: "byte list \<Rightarrow> nat option"
  ZSTD_decompress :: "nat \<Rightarrow> byte list \<Rightarrow> byte list option"

text \<open>
  What the library documents: a successful compression writes at most \<open>dstCapacity\<close>
  bytes, and the decompressor wants the exact size of a frame, so that a frame cut short
  is refused, either when its content size is asked for or when it is decompressed.
\<close>

definition writes_within_capacity :: "zstd \<Rightarrow> bool" where
  "writes_within_capacity Z =
     (\<forall>cap src level out. ZSTD_compress Z cap src level = Some out \<longrightarrow> length out \<le> cap)"

definition refuses_cut_frames :: "zstd \<Rightarrow> bool" where
  "refuses_cut_frames Z =
     (\<forall>cap src level out k.
        ZSTD_compress Z cap src level = Some out \<and> k < length out \<longrightarrow>
          ZSTD_getFrameContentSize Z (take k out) = None \<or>
          (\<forall>cap'. ZSTD_decompress Z cap' (take k out) = None))"

text \<open>
  Losslessness of the compressor: a frame it produced reports the length of its content
  and decompresses to that content.
\<close>

definition lossless :: "zstd \<Rightarrow> bool" where
  "lossless Z =
     (\<forall>cap src level out.
        ZSTD_compress Z cap src level = Some out \<longrightarrow>
          ZSTD_getFrameContentSize Z out = Some (length src) \<and>
          ZSTD_decompress Z (length src) out = Some src)"

text \<open>
  A small conforming compressor, used where a concrete one is needed: a frame is the
  content length in one byte followed by the content, unchanged.
\<close>

definition stored_frames :: zstd where
  "stored_frames =
     \<lparr>ZSTD_compressBound = (\<lambda>n. Some (n + 1)),
      ZSTD_compress = (\<lambda>cap src level.
         if length src < 256 \<and> length src + 1 \<le> cap
         then Some (of_nat (length src) # src) else None),
      ZSTD_getFrameContentSize = (\<lambda>frame.
         case frame of [] \<Rightarrow> None | h # body \<Rightarrow> Some (unat h)),
      ZSTD_decompress = (\<lambda>cap frame.
         case frame of
           [] \<Rightarrow> None
         | h # body \<Rightarrow> if length body = unat h \<and> unat h \<le> cap then Some body else None)\<rparr>"

subsection \<open>compress_signal and decompress_signal\<close>

text \<open>
  What a call of one of the two C functions comes to: it returns, or it runs into
  behaviour that C leaves undefined. Both functions return a pointer; \<open>Returned None\<close> is
  the return of \<^verbatim>\<open>NULL\<close>, which is all the caller is told of a failure, whatever its
  cause.
\<close>

datatype 'a outcome = Returned 'a | Undefined_behaviour

definition compressed_signal_max_size :: "zstd \<Rightarrow> nat \<Rightarrow> nat option" where
  "compressed_signal_max_size Z sample_count =
     (let max_svb_size = svb16_max_encoded_length sample_count mod 2 ^ 32
      in ZSTD_compressBound Z max_svb_size)"

text \<open>
  \<^verbatim>\<open>compress_signal(samples, count, n)\<close>. The list \<open>samples\<close> is the \<open>count\<close> samples behind
  the pointer. \<open>level\<close> is the macro \<^verbatim>\<open>SLOW5_ZSTD_COMPRESS_LEVEL\<close>, defined outside the
  sources at hand. The intermediate buffer is allocated with \<^verbatim>\<open>max_size\<close> bytes, a
  \<^verbatim>\<open>uint32_t\<close>; when the encoder writes more than that it writes past the allocation,
  which is undefined. The last statement before the return is
  \<^verbatim>\<open>*n = compression_size;\<close>: \<^verbatim>\<open>compression_size\<close> is declared nowhere in the function
  (the result of \<^verbatim>\<open>ZSTD_compress\<close> is held in \<^verbatim>\<open>compressed_size\<close>), so it is an argument
  of the model. On success the result is the content of \<^verbatim>\<open>destination\<close> that was
  written, paired with the value stored in \<^verbatim>\<open>*n\<close>; on the two \<^verbatim>\<open>NULL\<close> exits \<^verbatim>\<open>*n\<close> is
  not written.
\<close>

definition compress_signal ::
  "zstd \<Rightarrow> int \<Rightarrow> nat \<Rightarrow> sample list \<Rightarrow> (byte list \<times> nat) option outcome"
where
  "compress_signal Z level compression_size samples =
     (let count = length samples;
          max_size = svb16_max_encoded_length count mod 2 ^ 32;
          intermediate = svb16_encode samples;
          encoded_count = length intermediate
      in if max_size < encoded_count then Undefined_behaviour
         else case ZSTD_compressBound Z max_size of
                None \<Rightarrow> Returned None
              | Some zstd_compressed_max_size \<Rightarrow>
                  (case ZSTD_compress Z zstd_compressed_max_size intermediate level of
                     None \<Rightarrow> Returned None
                   | Some destination \<Rightarrow> Returned (Some (destination, compression_size))))"

text \<open>
  \<^verbatim>\<open>decompress_signal(compressed_bytes, count, n)\<close>. The list \<open>compressed_bytes\<close> is the
  \<open>count\<close> bytes behind the pointer; \<open>n\<close> is never used. The function returns \<^verbatim>\<open>NULL\<close>
  when \<^verbatim>\<open>ZSTD_getFrameContentSize\<close> gives an error and when \<^verbatim>\<open>ZSTD_decompress\<close> does.
  Past these two exits it declares \<^verbatim>\<open>int16_t *destination;\<close> without a value (the comment
  above the declaration asks for the length to be obtained "somehow") and hands that
  pointer to \<^verbatim>\<open>svb16::decode\<close>, which writes the samples through it; on a mismatch of the
  consumed count it calls \<^verbatim>\<open>free(destination)\<close>, otherwise it returns the pointer. The
  use of the pointer that was never assigned is undefined, and everything after the two
  exits lies behind it: the comparison of the consumed count, the third \<^verbatim>\<open>return NULL\<close>
  and the return of \<^verbatim>\<open>destination\<close>. A returned buffer would be \<open>Returned (Some samples)\<close>;
  no path of the function gets there.
\<close>

definition decompress_signal :: "zstd \<Rightarrow> byte list \<Rightarrow> sample list option outcome" where
  "decompress_signal Z compressed_bytes =
     (case ZSTD_getFrameContentSize Z compressed_bytes of
        None \<Rightarrow> Returned None
      | Some decompressed_zstd_size \<Rightarrow>
          (case ZSTD_decompress Z decompressed_zstd_size compressed_bytes of
             None \<Rightarrow> Returned None
           | Some intermediate \<Rightarrow> Undefined_behaviour))"

section \<open>Signal table writer (class SignalTableWriter)\<close>

text \<open>
  Of the writer the sources hold the class declaration only: the data members, with
  \<^verbatim>\<open>m_flushed_row_count\<close> and \<^verbatim>\<open>m_current_batch_row_count\<close> starting at 0, and the
  signatures of \<^verbatim>\<open>add_read\<close>, \<^verbatim>\<open>flush\<close> and \<^verbatim>\<open>close\<close>. The record below keeps the
  builders and the two counters under their names. The bodies of the member functions are
  modelled from the spec.
\<close>

type_synonym uuid = "128 word"

text \<open>A record batch of the signal table: its three columns, row by row in step.\<close>

record 'p RecordBatch =
  read_id_column :: "uuid list"
  signal_column :: "'p list"
  samples_column :: "32 word list"

definition batch_rows :: "'p RecordBatch \<Rightarrow> (uuid \<times> 'p \<times> 32 word) list" where
  "batch_rows b = zip (read_id_column b) (zip (signal_column b) (samples_column b))"

text \<open>
  The payload type \<open>'p\<close> is what the codec handed to \<^verbatim>\<open>add_read\<close> produces. The sink is
  represented by what it has taken so far: \<open>m_emitted\<close>, the batches in the order they
  were accepted, and \<open>m_end_of_stream\<close>. \<open>m_closed\<close> is the state \<open>Closed\<close> of the spec.
\<close>

record 'p SignalTableWriter =
  m_read_id_builder :: "uuid list"
  m_signal_builder :: "'p list"
  m_samples_builder :: "32 word list"
  m_flushed_row_count :: nat
  m_current_batch_row_count :: nat
  m_closed :: bool
  m_emitted :: "'p RecordBatch list"
  m_end_of_stream :: bool

datatype WriterError = EncodingFailed | WriterClosed | SinkError

text \<open>
  Modelled from the spec: construction of the writer (the constructor and
  \<^verbatim>\<open>make_signal_table_writer\<close> are declared only): empty builders, both counters 0, state
  open, a sink that has taken nothing.
\<close>

definition new_writer :: "'p SignalTableWriter" where
  "new_writer =
     \<lparr>m_read_id_builder = [], m_signal_builder = [], m_samples_builder = [],
      m_flushed_row_count = 0, m_current_batch_row_count = 0, m_closed = False,
      m_emitted = [], m_end_of_stream = False\<rparr>"

text \<open>
  Modelled from the spec: the body of \<^verbatim>\<open>SignalTableWriter::add_read\<close> is missing. It
  requires a writer that is not closed, invokes the codec on the samples, appends read id,
  payload and sample count to the three builders, increments
  \<open>current_batch_row_count\<close> and returns
  \<open>flushed_row_count + current_batch_row_count - 1\<close>; when the codec fails the record is
  not appended. \<open>codec\<close> is the codec, \<open>None\<close> being its failure.
\<close>

definition add_read ::
  "(sample list \<Rightarrow> 'p option) \<Rightarrow> 'p SignalTableWriter \<Rightarrow> uuid \<Rightarrow> sample list
     \<Rightarrow> (WriterError + nat) \<times> 'p SignalTableWriter"
where
  "add_read codec w rid samples =
     (if m_closed w then (Inl WriterClosed, w)
      else case codec samples of
             None \<Rightarrow> (Inl EncodingFailed, w)
           | Some payload \<Rightarrow>
               (let w' = w\<lparr>m_read_id_builder := m_read_id_builder w @ [rid],
                           m_signal_builder := m_signal_builder w @ [payload],
                           m_samples_builder := m_samples_builder w @ [of_nat (length samples)],
                           m_current_batch_row_count := m_current_batch_row_count w + 1\<rparr>
                in (Inr (m_flushed_row_count w' + m_current_batch_row_count w' - 1), w')))"

text \<open>
  Modelled from the spec: the body of \<^verbatim>\<open>SignalTableWriter::flush\<close> is missing. After
  \<^verbatim>\<open>close\<close> it fails with the writer-closed error; with no buffered row it does nothing;
  otherwise it hands the builders' content to the sink as one batch, adds
  \<open>current_batch_row_count\<close> to \<open>flushed_row_count\<close> and resets the batch count and the
  builders. When the sink rejects the batch the buffer is kept. \<open>sink_accepts\<close> is the
  sink's answer to this call.
\<close>

definition flush ::
  "bool \<Rightarrow> 'p SignalTableWriter \<Rightarrow> (WriterError + unit) \<times> 'p SignalTableWriter"
where
  "flush sink_accepts w =
     (if m_closed w then (Inl WriterClosed, w)
      else if m_current_batch_row_count w = 0 then (Inr (), w)
      else if \<not> sink_accepts then (Inl SinkError, w)
      else (Inr (),
            w\<lparr>m_emitted := m_emitted w @
                   [\<lparr>read_id_column = m_read_id_builder w,
                     signal_column = m_signal_builder w,
                     samples_column = m_samples_builder w\<rparr>],
              m_flushed_row_count := m_flushed_row_count w + m_current_batch_row_count w,
              m_current_batch_row_count := 0,
              m_read_id_builder := [], m_signal_builder := [], m_samples_builder := []\<rparr>))"

text \<open>
  Modelled from the spec: the body of \<^verbatim>\<open>SignalTableWriter::close\<close> is missing. It
  flushes the pending rows, signals the end of the stream to the sink and moves to
  \<open>Closed\<close>; a call on a closed writer succeeds and does nothing. A failing flush is
  propagated and leaves the writer as it was.
\<close>

definition close ::
  "bool \<Rightarrow> 'p SignalTableWriter \<Rightarrow> (WriterError + unit) \<times> 'p SignalTableWriter"
where
  "close sink_accepts w =
     (if m_closed w then (Inr (), w)
      else case flush sink_accepts w of
             (Inl e, w') \<Rightarrow> (Inl e, w')
           | (Inr _, w') \<Rightarrow> (Inr (), w'\<lparr>m_end_of_stream := True, m_closed := True\<rparr>))"

text \<open>
  A caller's sequence of calls, each \<^verbatim>\<open>flush\<close> and \<^verbatim>\<open>close\<close> with the answer the sink
  gives to it. \<open>run\<close> performs the calls in order and collects what the \<open>add_read\<close> calls
  returned.
\<close>

datatype call = Add_read uuid "sample list" | Flush bool | Close bool

fun run ::
  "(sample list \<Rightarrow> 'p option) \<Rightarrow> 'p SignalTableWriter \<Rightarrow> call list
     \<Rightarrow> (WriterError + nat) list \<times> 'p SignalTableWriter"
where
  "run codec w [] = ([], w)"
| "run codec w (Add_read rid samples # calls) =
     (case add_read codec w rid samples of
        (r, w') \<Rightarrow> (case run codec w' calls of (rs, w'') \<Rightarrow> (r # rs, w'')))"
| "run codec w (Flush sink_accepts # calls) = run codec (snd (flush sink_accepts w)) calls"
| "run codec w (Close sink_accepts # calls) = run codec (snd (close sink_accepts w)) calls"

text \<open>The row indices among the results of the \<open>add_read\<close> calls, in call order.\<close>

fun returned_indices :: "(WriterError + nat) list \<Rightarrow> nat list" where
  "returned_indices [] = []"
| "returned_indices (Inr i # rs) = i # returned_indices rs"
| "returned_indices (Inl e # rs) = returned_indices rs"

text \<open>
  The rows of the table in their final order: those of the batches the sink has taken,
  followed by the rows still in the builders.
\<close>

definition all_rows :: "'p SignalTableWriter \<Rightarrow> (uuid \<times> 'p \<times> 32 word) list" where
  "all_rows w =
     concat (map batch_rows (m_emitted w)) @
     zip (m_read_id_builder w) (zip (m_signal_builder w) (m_samples_builder w))"

text \<open>
  The bookkeeping that every reachable writer satisfies: the three builders hold
  \<open>m_current_batch_row_count\<close> entries each, \<open>m_flushed_row_count\<close> is the number of rows
  the sink has taken, and a closed writer holds no buffered row.
\<close>

definition consistent :: "'p SignalTableWriter \<Rightarrow> bool" where
  "consistent w =
     (length (m_read_id_builder w) = m_current_batch_row_count w \<and>
      length (m_signal_builder w) = m_current_batch_row_count w \<and>
      length (m_samples_builder w) = m_current_batch_row_count w \<and>
      m_flushed_row_count w = length (concat (map batch_rows (m_emitted w))) \<and>
      (m_closed w \<longrightarrow> m_current_batch_row_count w = 0))"

section \<open>Properties of the schema builder and the validator\<close>

subsection \<open>Lookup by name\<close>

lemma distinct_set_single: "distinct xs \<Longrightarrow> set xs = {i} \<Longrightarrow> xs = [i]"
proof (cases xs)
  case Nil
  assume "set xs = {i}" with Nil show ?thesis by simp
next
  case (Cons x ys)
  assume d: "distinct xs" and s: "set xs = {i}"
  from s Cons have xi: "x = i" by auto
  from d Cons have "x \<notin> set ys" by simp
  moreover from s Cons have "set ys \<subseteq> {i}" by auto
  ultimately have "ys = []" using xi by (cases ys) auto
  then show ?thesis using Cons xi by simp
qed

lemma filter_upt_single:
  "filter P [0..<n] = [i] \<longleftrightarrow> (i < n \<and> P i \<and> (\<forall>j<n. P j \<longrightarrow> j = i))"
proof
  assume h: "filter P [0..<n] = [i]"
  then have "set (filter P [0..<n]) = {i}" by simp
  then have "{j. j < n \<and> P j} = {i}" by auto
  then show "i < n \<and> P i \<and> (\<forall>j<n. P j \<longrightarrow> j = i)" by blast
next
  assume h: "i < n \<and> P i \<and> (\<forall>j<n. P j \<longrightarrow> j = i)"
  then have s: "set (filter P [0..<n]) = {i}" by auto
  have d: "distinct (filter P [0..<n])" by simp
  from d s show "filter P [0..<n] = [i]" by (rule distinct_set_single)
qed

lemma GetFieldIndex_column_at: "GetFieldIndex s n = int i \<longleftrightarrow> column_at s n i"
proof (cases "filter (\<lambda>i. name (schema_fields s ! i) = n) [0..<length (schema_fields s)]")
  case Nil
  then have "GetFieldIndex s n = - 1" by (simp add: GetFieldIndex_def)
  moreover from Nil have "\<not> (i < length (schema_fields s) \<and> name (schema_fields s ! i) = n)"
    by (auto simp: filter_empty_conv)
  ultimately show ?thesis by (auto simp: column_at_def)
next
  case outer: (Cons k ks)
  show ?thesis
  proof (cases ks)
    case Nil
    with outer have f: "filter (\<lambda>i. name (schema_fields s ! i) = n) [0..<length (schema_fields s)] = [k]"
      by simp
    then have g: "GetFieldIndex s n = int k" by (simp add: GetFieldIndex_def)
    have u: "k < length (schema_fields s) \<and> name (schema_fields s ! k) = n \<and>
      (\<forall>j<length (schema_fields s). name (schema_fields s ! j) = n \<longrightarrow> j = k)"
      using iffD1 [OF filter_upt_single f] .
    show ?thesis using g u by (auto simp: column_at_def)
  next
    case (Cons k' ks')
    with outer have f: "filter (\<lambda>i. name (schema_fields s ! i) = n) [0..<length (schema_fields s)] = k # k' # ks'"
      by simp
    then have g: "GetFieldIndex s n = - 1" by (simp add: GetFieldIndex_def)
    have "filter (\<lambda>i. name (schema_fields s ! i) = n) [0..<length (schema_fields s)] \<noteq> [i]"
      using f by simp
    then have "\<not> column_at s n i"
      unfolding column_at_def
      using iffD2 [OF filter_upt_single [where P = "\<lambda>i. name (schema_fields s ! i) = n"]] by blast
    with g show ?thesis by auto
  qed
qed

lemma GetFieldIndex_range: "GetFieldIndex s n = - 1 \<or> (\<exists>i. GetFieldIndex s n = int i)"
  unfolding GetFieldIndex_def by (auto split: list.splits)

lemma GetFieldIndex_found:
  assumes "GetFieldIndex s n \<noteq> - 1"
  shows "column_at s n (nat (GetFieldIndex s n))" and "0 \<le> GetFieldIndex s n"
proof -
  from assms GetFieldIndex_range [of s n] obtain i where i: "GetFieldIndex s n = int i" by blast
  then have "column_at s n i" by (simp only: GetFieldIndex_column_at)
  with i show "column_at s n (nat (GetFieldIndex s n))" by simp
  from i show "0 \<le> GetFieldIndex s n" by simp
qed

subsection \<open>The validator's type tests\<close>

lemma is_uuid_extension_iff: "is_uuid_extension t \<longleftrightarrow> (\<exists>st. t = EXTENSION ''minknow.uuid'' st)"
  by (cases t) (auto simp: is_uuid_extension_def)

lemma uuid_check:
  "(id_of t = EXTENSION_id \<and> extension_name t = ''minknow.uuid'') = is_uuid_extension t"
  by (cases t) (simp_all add: is_uuid_extension_def)

lemma id_of_INT16: "(id_of t = INT16_id) = (t = INT16)"
  by (cases t) simp_all

lemma id_of_UINT32: "(id_of t = UINT32_id) = (t = UINT32)"
  by (cases t) simp_all

lemma large_list_check:
  "(id_of t = LARGE_LIST_id \<and> id_of (value_type t) = INT16_id) = (t = LARGE_LIST INT16)"
  by (cases t) (simp_all add: id_of_INT16)

lemma read_signal_table_schema_Inr_iff:
  "read_signal_table_schema s = Inr d \<longleftrightarrow>
     (column_accepted s ''read_id'' \<and> column_accepted s ''signal'' \<and>
      column_accepted s ''samples'' \<and>
      d = \<lparr>loc_read_id = GetFieldIndex s ''read_id'', loc_signal = GetFieldIndex s ''signal'',
           loc_samples = GetFieldIndex s ''samples''\<rparr>)"
  using uuid_check [of "type (schema_fields s ! nat (GetFieldIndex s ''read_id''))"]
        large_list_check [of "type (schema_fields s ! nat (GetFieldIndex s ''signal''))"]
  by (auto simp: read_signal_table_schema_def column_accepted_def required_type_def Let_def
                 id_of_UINT32)

lemma Status_TypeError: "\<exists>m. (e :: Status) = TypeError m"
  by (cases e) simp

lemma rejected_is_TypeError:
  "\<not> (column_accepted s ''read_id'' \<and> column_accepted s ''signal'' \<and> column_accepted s ''samples'')
     \<Longrightarrow> \<exists>m. read_signal_table_schema s = Inl (TypeError m)"
proof -
  assume a: "\<not> (column_accepted s ''read_id'' \<and> column_accepted s ''signal'' \<and> column_accepted s ''samples'')"
  have "\<And>d. read_signal_table_schema s \<noteq> Inr d"
    using a read_signal_table_schema_Inr_iff [of s] by blast
  then obtain e where "read_signal_table_schema s = Inl e"
    by (cases "read_signal_table_schema s") auto
  then show ?thesis using Status_TypeError [of e] by auto
qed

subsection \<open>The error names the first column that is not accepted\<close>

lemma sublist_quoted_end: "sublist (quoted c) (p @ quoted c)"
  using sublist_appendI [of "quoted c" p "[]"] by simp

lemma sublist_quoted_mid: "sublist (quoted c) (p @ quoted c @ q)"
  by (rule sublist_appendI)

lemma read_id_error:
  assumes "\<not> column_accepted s ''read_id''"
  shows "\<exists>m. read_signal_table_schema s = Inl (TypeError m) \<and> sublist (quoted ''read_id'') m"
proof -
  let ?t = "type (schema_fields s ! nat (GetFieldIndex s ''read_id''))"
  consider (missing) "GetFieldIndex s ''read_id'' = - 1"
    | (tag) "GetFieldIndex s ''read_id'' \<noteq> - 1" "id_of ?t \<noteq> EXTENSION_id"
    | (ext) "GetFieldIndex s ''read_id'' \<noteq> - 1" "id_of ?t = EXTENSION_id"
            "extension_name ?t \<noteq> ''minknow.uuid''"
    using assms uuid_check [of ?t]
    by (auto simp: column_accepted_def required_type_def)
  then show ?thesis
  proof cases
    case missing
    then have "read_signal_table_schema s
                 = Inl (TypeError (''Schema missing field '' @ quoted ''read_id''))"
      by (simp add: read_signal_table_schema_def)
    then show ?thesis using sublist_quoted_end by blast
  next
    case tag
    then have "read_signal_table_schema s
                 = Inl (TypeError (''Schema field '' @ quoted ''read_id''
                                   @ ('' is incorrect type: '' @ quoted (name_of ?t))))"
      by (simp add: read_signal_table_schema_def Let_def quoted_def)
    then show ?thesis using sublist_quoted_mid by blast
  next
    case ext
    then have "read_signal_table_schema s
                 = Inl (TypeError (''Schema field '' @ quoted ''read_id''
                                   @ '' is incorrect extension type''))"
      by (simp add: read_signal_table_schema_def Let_def quoted_def)
    then show ?thesis using sublist_quoted_mid by blast
  qed
qed

lemma read_id_passes:
  assumes "column_accepted s ''read_id''"
  shows "GetFieldIndex s ''read_id'' \<noteq> - 1"
    and "id_of (type (schema_fields s ! nat (GetFieldIndex s ''read_id''))) = EXTENSION_id"
    and "extension_name (type (schema_fields s ! nat (GetFieldIndex s ''read_id''))) = ''minknow.uuid''"
  using assms uuid_check [of "type (schema_fields s ! nat (GetFieldIndex s ''read_id''))"]
  by (auto simp: column_accepted_def required_type_def)

lemma signal_error:
  assumes "column_accepted s ''read_id''" and "\<not> column_accepted s ''signal''"
  shows "\<exists>m. read_signal_table_schema s = Inl (TypeError m) \<and> sublist (quoted ''signal'') m"
proof -
  let ?t = "type (schema_fields s ! nat (GetFieldIndex s ''signal''))"
  note r = read_id_passes [OF assms(1)]
  consider (missing) "GetFieldIndex s ''signal'' = - 1"
    | (tag) "GetFieldIndex s ''signal'' \<noteq> - 1" "id_of ?t \<noteq> LARGE_LIST_id"
    | (val) "GetFieldIndex s ''signal'' \<noteq> - 1" "id_of ?t = LARGE_LIST_id"
            "id_of (value_type ?t) \<noteq> INT16_id"
    using assms(2) large_list_check [of ?t]
    by (auto simp: column_accepted_def required_type_def)
  then show ?thesis
  proof cases
    case missing
    then have "read_signal_table_schema s
                 = Inl (TypeError (''Schema missing field '' @ quoted ''signal''))"
      using r by (simp add: read_signal_table_schema_def Let_def)
    then show ?thesis using sublist_quoted_end by blast
  next
    case tag
    then have "read_signal_table_schema s
                 = Inl (TypeError (''Schema field '' @ quoted ''signal''
                                   @ ('' is incorrect type: '' @ quoted (name_of ?t))))"
      using r by (simp add: read_signal_table_schema_def Let_def quoted_def)
    then show ?thesis using sublist_quoted_mid by blast
  next
    case val
    then have "read_signal_table_schema s
                 = Inl (TypeError (''Schema field '' @ quoted ''signal''
                                   @ '' list value type is incorrect type''))"
      using r by (simp add: read_signal_table_schema_def Let_def quoted_def)
    then show ?thesis using sublist_quoted_mid by blast
  qed
qed

lemma signal_passes:
  assumes "column_accepted s ''signal''"
  shows "GetFieldIndex s ''signal'' \<noteq> - 1"
    and "id_of (type (schema_fields s ! nat (GetFieldIndex s ''signal''))) = LARGE_LIST_id"
    and "id_of (value_type (type (schema_fields s ! nat (GetFieldIndex s ''signal'')))) = INT16_id"
  using assms large_list_check [of "type (schema_fields s ! nat (GetFieldIndex s ''signal''))"]
  by (auto simp: column_accepted_def required_type_def)

lemma samples_error:
  assumes "column_accepted s ''read_id''" and "column_accepted s ''signal''"
    and "\<not> column_accepted s ''samples''"
  shows "\<exists>m. read_signal_table_schema s = Inl (TypeError m) \<and> sublist (quoted ''samples'') m"
proof -
  let ?t = "type (schema_fields s ! nat (GetFieldIndex s ''samples''))"
  note r = read_id_passes [OF assms(1)] and g = signal_passes [OF assms(2)]
  consider (missing) "GetFieldIndex s ''samples'' = - 1"
    | (tag) "GetFieldIndex s ''samples'' \<noteq> - 1" "id_of ?t \<noteq> UINT32_id"
    using assms(3) by (auto simp: column_accepted_def required_type_def id_of_UINT32)
  then show ?thesis
  proof cases
    case missing
    then have "read_signal_table_schema s
                 = Inl (TypeError (''Schema missing field '' @ quoted ''samples''))"
      using r g by (simp add: read_signal_table_schema_def Let_def)
    then show ?thesis using sublist_quoted_end by blast
  next
    case tag
    then have "read_signal_table_schema s
                 = Inl (TypeError (''Schema field '' @ quoted ''samples''
                                   @ ('' is incorrect type: '' @ quoted (name_of ?t))))"
      using r g by (simp add: read_signal_table_schema_def Let_def quoted_def)
    then show ?thesis using sublist_quoted_mid by blast
  qed
qed

lemma first_rejected_column_named:
  assumes "find (\<lambda>c. \<not> column_accepted s c) required_columns = Some c"
  shows "\<exists>m. read_signal_table_schema s = Inl (TypeError m) \<and> sublist (quoted c) m"
  using assms read_id_error [of s] signal_error [of s] samples_error [of s]
  by (auto simp: required_columns_def split: if_splits)

subsection \<open>Accepted schemas\<close>

lemma accepted_positions:
  assumes "read_signal_table_schema s = Inr d"
  shows "column_at s ''read_id'' (nat (loc_read_id d))"
    and "column_at s ''signal'' (nat (loc_signal d))"
    and "column_at s ''samples'' (nat (loc_samples d))"
    and "0 \<le> loc_read_id d" and "0 \<le> loc_signal d" and "0 \<le> loc_samples d"
    and "is_uuid_extension (type (schema_fields s ! nat (loc_read_id d)))"
    and "type (schema_fields s ! nat (loc_signal d)) = LARGE_LIST INT16"
    and "type (schema_fields s ! nat (loc_samples d)) = UINT32"
proof -
  from assms have a: "column_accepted s ''read_id''" "column_accepted s ''signal''"
      "column_accepted s ''samples''"
    and d: "d = \<lparr>loc_read_id = GetFieldIndex s ''read_id'', loc_signal = GetFieldIndex s ''signal'',
           loc_samples = GetFieldIndex s ''samples''\<rparr>"
    by (simp_all add: read_signal_table_schema_Inr_iff)
  from a have n: "GetFieldIndex s ''read_id'' \<noteq> - 1" "GetFieldIndex s ''signal'' \<noteq> - 1"
      "GetFieldIndex s ''samples'' \<noteq> - 1"
    by (simp_all add: column_accepted_def)
  show "column_at s ''read_id'' (nat (loc_read_id d))" using GetFieldIndex_found(1) [OF n(1)] d by simp
  show "column_at s ''signal'' (nat (loc_signal d))" using GetFieldIndex_found(1) [OF n(2)] d by simp
  show "column_at s ''samples'' (nat (loc_samples d))" using GetFieldIndex_found(1) [OF n(3)] d by simp
  show "0 \<le> loc_read_id d" using GetFieldIndex_found(2) [OF n(1)] d by simp
  show "0 \<le> loc_signal d" using GetFieldIndex_found(2) [OF n(2)] d by simp
  show "0 \<le> loc_samples d" using GetFieldIndex_found(2) [OF n(3)] d by simp
  show "is_uuid_extension (type (schema_fields s ! nat (loc_read_id d)))"
    using a(1) d by (simp add: column_accepted_def required_type_def)
  show "type (schema_fields s ! nat (loc_signal d)) = LARGE_LIST INT16"
    using a(2) d by (simp add: column_accepted_def required_type_def)
  show "type (schema_fields s ! nat (loc_samples d)) = UINT32"
    using a(3) d by (simp add: column_accepted_def required_type_def)
qed

lemma accepted_by_positions:
  assumes "column_at s ''read_id'' i" "is_uuid_extension (type (schema_fields s ! i))"
    and "column_at s ''signal'' j" "type (schema_fields s ! j) = LARGE_LIST INT16"
    and "column_at s ''samples'' k" "type (schema_fields s ! k) = UINT32"
  shows "read_signal_table_schema s = Inr \<lparr>loc_read_id = int i, loc_signal = int j, loc_samples = int k\<rparr>"
proof -
  have g: "GetFieldIndex s ''read_id'' = int i" "GetFieldIndex s ''signal'' = int j"
      "GetFieldIndex s ''samples'' = int k"
    using assms(1,3,5) by (simp_all only: GetFieldIndex_column_at)
  show ?thesis
    using g assms(2,4,6)
    by (simp add: read_signal_table_schema_Inr_iff column_accepted_def required_type_def)
qed

text \<open>
  C10. The validator accepts the \<open>read_id\<close> column only when its type is an extension type
  whose extension name is exactly \<open>minknow.uuid\<close>, and the \<open>signal\<close> column only when its
  type is a large list of 16-bit signed integers. A \<open>read_id\<close> column of any other type (a
  128-bit fixed-width binary, an extension under another name) and a \<open>signal\<close> column of
  any other type (a plain list of 16-bit integers, a large list of something else) make
  the validation end in a type error.
\<close>

theorem validator_requires_minknow_uuid_and_large_list_int16:
  "(read_signal_table_schema s = Inr d \<longrightarrow>
      (\<exists>st. type (schema_fields s ! nat (loc_read_id d)) = EXTENSION ''minknow.uuid'' st) \<and>
      type (schema_fields s ! nat (loc_signal d)) = LARGE_LIST INT16 \<and>
      loc_read_id d = GetFieldIndex s ''read_id'' \<and> loc_signal d = GetFieldIndex s ''signal'')
   \<and> (GetFieldIndex r ''read_id'' = int i \<and>
        (\<forall>st. type (schema_fields r ! i) \<noteq> EXTENSION ''minknow.uuid'' st) \<longrightarrow>
        (\<exists>m. read_signal_table_schema r = Inl (TypeError m)))
   \<and> (GetFieldIndex l ''signal'' = int j \<and> type (schema_fields l ! j) \<noteq> LARGE_LIST INT16 \<longrightarrow>
        (\<exists>m. read_signal_table_schema l = Inl (TypeError m)))"
proof (intro conjI impI)
  assume a: "read_signal_table_schema s = Inr d"
  show "\<exists>st. type (schema_fields s ! nat (loc_read_id d)) = EXTENSION ''minknow.uuid'' st"
    using accepted_positions(7) [OF a] by (simp only: is_uuid_extension_iff)
  show "type (schema_fields s ! nat (loc_signal d)) = LARGE_LIST INT16"
    using accepted_positions(8) [OF a] .
  from a show "loc_read_id d = GetFieldIndex s ''read_id''"
    by (simp add: read_signal_table_schema_Inr_iff)
  from a show "loc_signal d = GetFieldIndex s ''signal''"
    by (simp add: read_signal_table_schema_Inr_iff)
next
  assume a: "GetFieldIndex r ''read_id'' = int i \<and>
        (\<forall>st. type (schema_fields r ! i) \<noteq> EXTENSION ''minknow.uuid'' st)"
  then have "\<not> column_accepted r ''read_id''"
    by (simp add: column_accepted_def required_type_def is_uuid_extension_iff)
  then show "\<exists>m. read_signal_table_schema r = Inl (TypeError m)"
    using rejected_is_TypeError [of r] by blast
next
  assume a: "GetFieldIndex l ''signal'' = int j \<and> type (schema_fields l ! j) \<noteq> LARGE_LIST INT16"
  then have "\<not> column_accepted l ''signal''"
    by (simp add: column_accepted_def required_type_def)
  then show "\<exists>m. read_signal_table_schema l = Inl (TypeError m)"
    using rejected_is_TypeError [of l] by blast
qed

lemma upt3: "[0..<3] = [0, 1, 2]" and upt4: "[0..<4] = [0, 1, 2, 3]"
  by (simp_all add: upt_rec)

theorem validator_requires_minknow_uuid_and_large_list_int16_witness:
  "read_signal_table_schema
      (schema [field ''samples'' UINT32,
               field ''read_id'' (EXTENSION ''minknow.uuid'' (FIXED_SIZE_BINARY 16)),
               field ''signal'' (LARGE_LIST INT16)] None)
     = Inr \<lparr>loc_read_id = 1, loc_signal = 2, loc_samples = 0\<rparr>
   \<and> read_signal_table_schema
      (schema [field ''read_id'' (EXTENSION ''other.uuid'' (FIXED_SIZE_BINARY 16)),
               field ''signal'' (LARGE_LIST INT16),
               field ''samples'' UINT32] None)
     = Inl (TypeError ''Schema field 'read_id' is incorrect extension type'')
   \<and> read_signal_table_schema
      (schema [field ''read_id'' (EXTENSION ''minknow.uuid'' (FIXED_SIZE_BINARY 16)),
               field ''signal'' (LIST INT16),
               field ''samples'' UINT32] None)
     = Inl (TypeError (''Schema field 'signal' is incorrect type: '' @ quoted ''list''))"
  using validator_requires_minknow_uuid_and_large_list_int16
    [of "schema [field ''samples'' UINT32,
               field ''read_id'' (EXTENSION ''minknow.uuid'' (FIXED_SIZE_BINARY 16)),
               field ''signal'' (LARGE_LIST INT16)] None"
        "\<lparr>loc_read_id = 1, loc_signal = 2, loc_samples = 0\<rparr>"
        "schema [field ''read_id'' (EXTENSION ''other.uuid'' (FIXED_SIZE_BINARY 16)),
               field ''signal'' (LARGE_LIST INT16),
               field ''samples'' UINT32] None" 0
        "schema [field ''read_id'' (EXTENSION ''minknow.uuid'' (FIXED_SIZE_BINARY 16)),
               field ''signal'' (LIST INT16),
               field ''samples'' UINT32] None" 1]
  by (simp add: read_signal_table_schema_def GetFieldIndex_def schema_def field_def upt3 quoted_def)

text \<open>
  C6. Validation looks at \<open>read_id\<close>, \<open>signal\<close>, \<open>samples\<close> in this order. When one of
  them is not accepted, because the lookup by name does not find it or because its type
  fails the check, validation fails and the message of the error holds the quoted name of
  the first such column. When validation succeeds the description holds the positions of
  the three columns. A schema that holds each of the three names exactly once, with the
  right type, at any positions and among any other columns, validates, and the
  description is those positions.
\<close>

theorem schema_validation_names_failing_column:
  "(find (\<lambda>c. \<not> column_accepted s c) required_columns = Some c \<longrightarrow>
       (\<exists>m. read_signal_table_schema s = Inl (TypeError m) \<and> sublist (quoted c) m))
   \<and> (read_signal_table_schema v = Inr d \<longrightarrow>
        column_at v ''read_id'' (nat (loc_read_id d)) \<and> 0 \<le> loc_read_id d \<and>
        column_at v ''signal'' (nat (loc_signal d)) \<and> 0 \<le> loc_signal d \<and>
        column_at v ''samples'' (nat (loc_samples d)) \<and> 0 \<le> loc_samples d)
   \<and> (column_at x ''read_id'' i \<and> is_uuid_extension (type (schema_fields x ! i)) \<and>
       column_at x ''signal'' j \<and> type (schema_fields x ! j) = LARGE_LIST INT16 \<and>
       column_at x ''samples'' k \<and> type (schema_fields x ! k) = UINT32 \<longrightarrow>
        read_signal_table_schema x
          = Inr \<lparr>loc_read_id = int i, loc_signal = int j, loc_samples = int k\<rparr>)"
proof (intro conjI impI)
  assume "find (\<lambda>c. \<not> column_accepted s c) required_columns = Some c"
  then show "\<exists>m. read_signal_table_schema s = Inl (TypeError m) \<and> sublist (quoted c) m"
    by (rule first_rejected_column_named)
next
  assume a: "read_signal_table_schema v = Inr d"
  show "column_at v ''read_id'' (nat (loc_read_id d))" by (rule accepted_positions(1) [OF a])
  show "column_at v ''signal'' (nat (loc_signal d))" by (rule accepted_positions(2) [OF a])
  show "column_at v ''samples'' (nat (loc_samples d))" by (rule accepted_positions(3) [OF a])
  show "0 \<le> loc_read_id d" by (rule accepted_positions(4) [OF a])
  show "0 \<le> loc_signal d" by (rule accepted_positions(5) [OF a])
  show "0 \<le> loc_samples d" by (rule accepted_positions(6) [OF a])
next
  assume "column_at x ''read_id'' i \<and> is_uuid_extension (type (schema_fields x ! i)) \<and>
       column_at x ''signal'' j \<and> type (schema_fields x ! j) = LARGE_LIST INT16 \<and>
       column_at x ''samples'' k \<and> type (schema_fields x ! k) = UINT32"
  then show "read_signal_table_schema x
          = Inr \<lparr>loc_read_id = int i, loc_signal = int j, loc_samples = int k\<rparr>"
    using accepted_by_positions [of x i j k] by blast
qed

theorem schema_validation_names_failing_column_witness:
  "find (\<lambda>c. \<not> column_accepted
         (schema [field ''read_id'' (EXTENSION ''minknow.uuid'' (FIXED_SIZE_BINARY 16)),
                  field ''signal'' (LARGE_LIST INT32),
                  field ''samples'' UINT32] None) c) required_columns = Some ''signal''
   \<and> read_signal_table_schema
         (schema [field ''read_id'' (EXTENSION ''minknow.uuid'' (FIXED_SIZE_BINARY 16)),
                  field ''signal'' (LARGE_LIST INT32),
                  field ''samples'' UINT32] None)
       = Inl (TypeError ''Schema field 'signal' list value type is incorrect type'')
   \<and> sublist (quoted ''signal'') ''Schema field 'signal' list value type is incorrect type''
   \<and> read_signal_table_schema
         (schema [field ''samples'' UINT32,
                  field ''channel'' STRING,
                  field ''signal'' (LARGE_LIST INT16),
                  field ''read_id'' (EXTENSION ''minknow.uuid'' (FIXED_SIZE_BINARY 16))] None)
       = Inr \<lparr>loc_read_id = 3, loc_signal = 2, loc_samples = 0\<rparr>
   \<and> column_at
         (schema [field ''samples'' UINT32,
                  field ''channel'' STRING,
                  field ''signal'' (LARGE_LIST INT16),
                  field ''read_id'' (EXTENSION ''minknow.uuid'' (FIXED_SIZE_BINARY 16))] None)
         ''read_id'' 3"
  using schema_validation_names_failing_column
    [of "schema [field ''read_id'' (EXTENSION ''minknow.uuid'' (FIXED_SIZE_BINARY 16)),
                  field ''signal'' (LARGE_LIST INT32),
                  field ''samples'' UINT32] None"
        "''signal''"
        "schema [field ''samples'' UINT32,
                  field ''channel'' STRING,
                  field ''signal'' (LARGE_LIST INT16),
                  field ''read_id'' (EXTENSION ''minknow.uuid'' (FIXED_SIZE_BINARY 16))] None"
        "\<lparr>loc_read_id = 3, loc_signal = 2, loc_samples = 0\<rparr>"
        "schema [field ''samples'' UINT32,
                  field ''channel'' STRING,
                  field ''signal'' (LARGE_LIST INT16),
                  field ''read_id'' (EXTENSION ''minknow.uuid'' (FIXED_SIZE_BINARY 16))] None"
        3 2 0]
  by (simp add: GetFieldIndex_column_at [symmetric] read_signal_table_schema_def
        GetFieldIndex_def schema_def field_def upt3 upt4 quoted_def column_accepted_def
        required_type_def required_columns_def is_uuid_extension_def)




section \<open>Properties of the signal codec\<close>

subsection \<open>Length of the transform's output\<close>

lemma length_descriptors: "length (descriptors us) = (length us + 3) div 4"
  by (induction us rule: descriptors.induct) simp_all

lemma length_delta: "length (delta prev xs) = length xs"
  by (induction xs arbitrary: prev) simp_all

lemma length_data_bytes: "length (data_bytes u) \<le> 2"
  by (simp add: data_bytes_def)

lemma length_concat_data_bytes: "length (concat (map data_bytes us)) \<le> 2 * length us"
proof (induction us)
  case Nil
  show ?case by simp
next
  case (Cons u us)
  have "length (concat (map data_bytes (u # us)))
          = length (data_bytes u) + length (concat (map data_bytes us))"
    by simp
  also have "\<dots> \<le> 2 + 2 * length us"
    using length_data_bytes [of u] Cons.IH by linarith
  finally show ?case by simp
qed

lemma length_svb16_encode:
  "length (svb16_encode samples) \<le> svb16_max_encoded_length (length samples)"
  using length_concat_data_bytes [of "map zigzag (delta 0 samples)"]
  by (simp add: svb16_encode_def svb16_max_encoded_length_def Let_def length_descriptors
        length_delta)

lemma no_overrun_below_2_32:
  assumes "svb16_max_encoded_length (length samples) < 2 ^ 32"
  shows "\<not> svb16_max_encoded_length (length samples) mod 2 ^ 32 < length (svb16_encode samples)"
  using assms length_svb16_encode [of samples] by simp

subsection \<open>The stored-frame compressor meets the documented behaviour\<close>

lemma stored_frames_within_capacity: "writes_within_capacity stored_frames"
  by (auto simp: writes_within_capacity_def stored_frames_def split: if_splits)

lemma unat_byte_of_length: "n < 256 \<Longrightarrow> unat (of_nat n :: byte) = n"
  by (simp add: unat_of_nat)

lemma stored_frames_refuses_cut: "refuses_cut_frames stored_frames"
proof (unfold refuses_cut_frames_def, intro allI impI)
  fix cap src level out k
  assume a: "ZSTD_compress stored_frames cap src level = Some out \<and> k < length out"
  then have out: "out = of_nat (length src) # src" and small: "length src < 256"
    by (auto simp: stored_frames_def split: if_splits)
  show "ZSTD_getFrameContentSize stored_frames (take k out) = None \<or>
        (\<forall>cap'. ZSTD_decompress stored_frames cap' (take k out) = None)"
  proof (cases k)
    case 0
    then show ?thesis by (simp add: stored_frames_def)
  next
    case (Suc k')
    with a out have "k' < length src" by simp
    then have "length (take k' src) \<noteq> unat (of_nat (length src) :: byte)"
      using small by (simp add: unat_byte_of_length)
    then show ?thesis using Suc out by (simp add: stored_frames_def)
  qed
qed

subsection \<open>compress_signal\<close>

lemma compress_signal_Returned:
  assumes "compress_signal Z level cs samples = Returned (Some (out, n))"
  shows "\<exists>b. ZSTD_compressBound Z (svb16_max_encoded_length (length samples) mod 2 ^ 32) = Some b \<and>
             ZSTD_compress Z b (svb16_encode samples) level = Some out \<and> n = cs"
  using assms
  by (auto simp: compress_signal_def Let_def split: if_splits option.splits)

lemma compress_signal_within_max_size:
  assumes "writes_within_capacity Z"
    and "compress_signal Z level cs samples = Returned (Some (out, n))"
  shows "\<exists>b. compressed_signal_max_size Z (length samples) = Some b \<and> length out \<le> b"
proof -
  from compress_signal_Returned [OF assms(2)] obtain b where
    b: "ZSTD_compressBound Z (svb16_max_encoded_length (length samples) mod 2 ^ 32) = Some b"
    and c: "ZSTD_compress Z b (svb16_encode samples) level = Some out"
    by blast
  from assms(1) c have "length out \<le> b"
    unfolding writes_within_capacity_def by blast
  with b show ?thesis by (simp add: compressed_signal_max_size_def)
qed

lemma compressed_signal_max_size_closed_form:
  assumes "(n + 3) div 4 + 2 * n < 2 ^ 32"
  shows "compressed_signal_max_size Z n = ZSTD_compressBound Z ((n + 3) div 4 + 2 * n)"
  using assms by (simp add: compressed_signal_max_size_def svb16_max_encoded_length_def)

lemma compress_signal_defined:
  assumes "(length samples + 3) div 4 + 2 * length samples < 2 ^ 32"
  shows "compress_signal Z level cs samples \<noteq> Undefined_behaviour"
proof -
  from assms have "svb16_max_encoded_length (length samples) < 2 ^ 32"
    by (simp add: svb16_max_encoded_length_def)
  then have "\<not> svb16_max_encoded_length (length samples) mod 2 ^ 32
               < length (svb16_encode samples)"
    by (rule no_overrun_below_2_32)
  then show ?thesis
    by (simp add: compress_signal_def Let_def split: option.splits)
qed

lemma enc_scenario:
  "svb16_encode [0, 1, 1, 0, - 1, - 32768, 32767] = [0, 4, 0, 2, 0, 1, 1, 253, 255, 1]"
  by (simp add: svb16_encode_def zigzag_def data_bytes_def length_code_def)


text \<open>
  C2, as amended. For every number \<open>n\<close> of samples with \<open>ceil(n/4) + 2*n < 2^32\<close> and
  every buffer of \<open>n\<close> samples: \<^verbatim>\<open>compressed_signal_max_size\<close> of \<open>n\<close> is the compressor's
  bound applied to \<open>ceil(n/4) + 2*n\<close>; the transform produces no more than
  \<open>ceil(n/4) + 2*n\<close> bytes, so that \<^verbatim>\<open>compress_signal\<close> stays within its intermediate
  buffer; and the bytes it returns are no more than that bound, the compressor writing
  no more than the capacity it is given.
\<close>

theorem compressed_length_within_max_size:
  "writes_within_capacity Z \<Longrightarrow>
   (length samples + 3) div 4 + 2 * length samples < 2 ^ 32 \<Longrightarrow>
     compressed_signal_max_size Z (length samples)
       = ZSTD_compressBound Z ((length samples + 3) div 4 + 2 * length samples)
     \<and> length (svb16_encode samples) \<le> (length samples + 3) div 4 + 2 * length samples
     \<and> compress_signal Z level compression_size samples \<noteq> Undefined_behaviour
     \<and> (compress_signal Z level compression_size samples = Returned (Some (out, n)) \<longrightarrow>
          (\<exists>b. ZSTD_compressBound Z ((length samples + 3) div 4 + 2 * length samples) = Some b
               \<and> length out \<le> b))"
proof (intro conjI impI)
  assume w: "writes_within_capacity Z"
    and r: "(length samples + 3) div 4 + 2 * length samples < 2 ^ 32"
  from r show m: "compressed_signal_max_size Z (length samples)
       = ZSTD_compressBound Z ((length samples + 3) div 4 + 2 * length samples)"
    by (rule compressed_signal_max_size_closed_form)
  show "length (svb16_encode samples) \<le> (length samples + 3) div 4 + 2 * length samples"
    using length_svb16_encode [of samples] by (simp add: svb16_max_encoded_length_def)
  from r show "compress_signal Z level compression_size samples \<noteq> Undefined_behaviour"
    by (rule compress_signal_defined)
  assume c: "compress_signal Z level compression_size samples = Returned (Some (out, n))"
  from compress_signal_within_max_size [OF w c] m
  show "\<exists>b. ZSTD_compressBound Z ((length samples + 3) div 4 + 2 * length samples) = Some b
               \<and> length out \<le> b"
    by simp
qed

theorem compressed_length_within_max_size_witness:
  "writes_within_capacity stored_frames
   \<and> (length [0, 1, 1, 0, - 1, - 32768, 32767 :: sample] + 3) div 4
       + 2 * length [0, 1, 1, 0, - 1, - 32768, 32767 :: sample] < (2 :: nat) ^ 32
   \<and> compress_signal stored_frames 1 0 [0, 1, 1, 0, - 1, - 32768, 32767]
       = Returned (Some ([10, 0, 4, 0, 2, 0, 1, 1, 253, 255, 1], 0))
   \<and> compressed_signal_max_size stored_frames 7 = Some 17
   \<and> length [10, 0, 4, 0, 2, 0, 1, 1, 253, 255, 1 :: byte] \<le> 17"
proof -
  have r: "(length [0, 1, 1, 0, - 1, - 32768, 32767 :: sample] + 3) div 4
       + 2 * length [0, 1, 1, 0, - 1, - 32768, 32767 :: sample] < (2 :: nat) ^ 32"
    by simp
  have c: "compress_signal stored_frames 1 0 [0, 1, 1, 0, - 1, - 32768, 32767]
             = Returned (Some ([10, 0, 4, 0, 2, 0, 1, 1, 253, 255, 1], 0))"
    by (simp add: compress_signal_def enc_scenario svb16_max_encoded_length_def stored_frames_def)
  have m: "compressed_signal_max_size stored_frames 7 = Some 17"
    by (simp add: compressed_signal_max_size_def svb16_max_encoded_length_def stored_frames_def)
  show ?thesis
    using compressed_length_within_max_size
      [OF stored_frames_within_capacity r, of 1 0 "[10, 0, 4, 0, 2, 0, 1, 1, 253, 255, 1]" 0]
      r c m stored_frames_within_capacity
    by simp
qed

text \<open>
  Without the limit the closed form is not what the source computes: it holds the length
  in a \<^verbatim>\<open>uint32_t\<close>, and for 2147483648 samples \<open>ceil(n/4) + 2*n\<close> is 4831838208, which
  that variable holds as 536870912.
\<close>

theorem closed_form_bound_counterexample:
  "compressed_signal_max_size stored_frames 2147483648 = Some 536870913
   \<and> ZSTD_compressBound stored_frames ((2147483648 + 3) div 4 + 2 * 2147483648)
       = Some 4831838209"
  by (simp add: compressed_signal_max_size_def svb16_max_encoded_length_def stored_frames_def)

subsection \<open>decompress_signal\<close>

lemma decompress_signal_cut_frame:
  assumes "refuses_cut_frames Z" and "ZSTD_compress Z cap src level = Some out" and "k < length out"
  shows "decompress_signal Z (take k out) = Returned None"
proof -
  from assms have "ZSTD_getFrameContentSize Z (take k out) = None \<or>
          (\<forall>cap'. ZSTD_decompress Z cap' (take k out) = None)"
    unfolding refuses_cut_frames_def by blast
  then show ?thesis
    by (auto simp: decompress_signal_def split: option.splits)
qed

lemma decompress_signal_no_buffer:
  "decompress_signal Z compressed_bytes \<noteq> Returned (Some samples)"
  by (simp add: decompress_signal_def split: option.splits)




text \<open>
  C7, evaluated on the samples 0, 1, 1, 0, -1, -32768, 32767 with the stored-frame
  compressor: the eleven compressed bytes are returned, and the length reported through
  \<^verbatim>\<open>n\<close> is whatever \<^verbatim>\<open>compression_size\<close> denotes, not the eleven that
  \<^verbatim>\<open>compressed_size\<close> holds.
\<close>

theorem compress_signal_reports_compression_size:
  "compress_signal stored_frames 1 compression_size [0, 1, 1, 0, - 1, - 32768, 32767]
     = Returned (Some ([10, 0, 4, 0, 2, 0, 1, 1, 253, 255, 1], compression_size))"
  by (simp add: compress_signal_def enc_scenario svb16_max_encoded_length_def stored_frames_def)

text \<open>
  C1, evaluated on the compressed bytes of the samples 0, 1, 1, 0, -1, -32768, 32767:
  \<^verbatim>\<open>decompress_signal\<close> has no argument for the number of samples; both compressor steps
  succeed on these bytes, and the function then uses the pointer \<^verbatim>\<open>destination\<close> that it
  never gave a value. On no input at all does it return a buffer holding the seven
  samples.
\<close>

theorem decompress_signal_undefined_on_compressed_samples:
  "decompress_signal stored_frames [10, 0, 4, 0, 2, 0, 1, 1, 253, 255, 1] = Undefined_behaviour
   \<and> decompress_signal Z compressed_bytes
       \<noteq> Returned (Some [0, 1, 1, 0, - 1, - 32768, 32767])"
proof
  show "decompress_signal stored_frames [10, 0, 4, 0, 2, 0, 1, 1, 253, 255, 1]
          = Undefined_behaviour"
    by (simp add: decompress_signal_def stored_frames_def)
  show "decompress_signal Z compressed_bytes
          \<noteq> Returned (Some [0, 1, 1, 0, - 1, - 32768, 32767])"
    by (rule decompress_signal_no_buffer)
qed

lemma compress_signal_length_argument:
  "compress_signal Z level compression_size samples = Returned (Some (out, n))
     \<Longrightarrow> n = compression_size"
  using compress_signal_Returned by blast

subsection \<open>The transform of the spec, told the sample count, gives the samples back\<close>

lemma signed_drop_bit_15: "signed_drop_bit 15 (x :: 16 word) = (if bit x 15 then - 1 else 0)"
proof (rule bit_word_eqI)
  fix n assume "n < LENGTH(16)"
  then have "n = 0 \<or> (1 \<le> n \<and> n < 16)" by auto
  then show "bit (signed_drop_bit 15 x) n = bit (if bit x 15 then - 1 else 0 :: 16 word) n"
    by (auto simp: bit_signed_drop_bit_iff)
qed

lemma bit_shifted: "bit (push_bit 1 (x :: 16 word)) n \<longleftrightarrow> 0 < n \<and> n < 16 \<and> bit x (n - 1)"
  by (simp only: bit_push_bit_iff) (auto simp: possible_bit_word)

lemma zigzag_bits:
  "bit (zigzag x) n \<longleftrightarrow> n < 16 \<and> (if n = 0 then bit x 15 else bit x (n - 1) \<noteq> bit x 15)"
  unfolding zigzag_def signed_drop_bit_15 bit_xor_iff bit_shifted
  by (auto simp: bit_simps dest: bit_imp_le_length)

lemma unzigzag_bits:
  "bit (unzigzag u) n \<longleftrightarrow> n < 16 \<and> (bit u (Suc n) \<noteq> bit u 0)"
proof -
  have m: "- (u AND 1) = (if bit u 0 then - 1 else 0)"
    by (cases "bit u 0") (simp_all add: and_one_eq mod_2_eq_odd bit_0)
  show ?thesis
    unfolding unzigzag_def bit_xor_iff m
    by (auto simp: bit_simps dest: bit_imp_le_length)
qed

lemma unzigzag_zigzag: "unzigzag (zigzag x) = x"
proof (rule bit_word_eqI)
  fix n assume "n < LENGTH(16)"
  then have n: "n < 16" by simp
  show "bit (unzigzag (zigzag x)) n = bit x n"
  proof (cases "n = 15")
    case True
    then show ?thesis by (simp add: unzigzag_bits zigzag_bits)
  next
    case False
    with n have "Suc n < 16" by simp
    then show ?thesis using n by (auto simp: unzigzag_bits zigzag_bits)
  qed
qed

lemma undelta_delta: "undelta prev (map unzigzag (map zigzag (delta prev xs))) = xs"
  by (induction xs arbitrary: prev) (simp_all add: unzigzag_zigzag)

lemma bit_low_byte:
  "bit (ucast (ucast (u :: 16 word) :: byte) :: 16 word) n \<longleftrightarrow> n < 8 \<and> bit u n"
  by (auto simp: bit_simps)

lemma one_byte: "(u :: 16 word) < 256 \<Longrightarrow> ucast (ucast u :: byte) = u"
proof (rule bit_word_eqI)
  fix n assume "n < LENGTH(16)" and u: "u < 256"
  from u have "u < 2 ^ 8" by simp
  then have "take_bit 8 u = u" by (simp only: take_bit_eq_mask less_mask_eq)
  then have "bit u n = bit (take_bit 8 u) n" by simp
  then show "bit (ucast (ucast u :: byte) :: 16 word) n = bit u n"
    by (simp add: bit_low_byte bit_take_bit_iff)
qed

lemma two_bytes:
  "ucast (ucast (u :: 16 word) :: byte) OR push_bit 8 (ucast (ucast (drop_bit 8 u) :: byte)) = u"
proof (rule bit_word_eqI)
  fix n assume "n < LENGTH(16)"
  then have n: "n < 16" by simp
  show "bit (ucast (ucast u :: byte) OR push_bit 8 (ucast (ucast (drop_bit 8 u) :: byte)) :: 16 word) n
          = bit u n"
  proof (cases "n < 8")
    case True
    then show ?thesis by (auto simp: bit_simps)
  next
    case False
    then have "8 + (n - 8) = n" by simp
    with False n show ?thesis
      by (auto simp: bit_simps)
  qed
qed

lemma read_values_data_bytes:
  "read_values (map length_code us) (concat (map data_bytes us) @ rest) = Some (us, rest)"
proof (induction us)
  case Nil
  show ?case by simp
next
  case (Cons u us)
  show ?case
  proof (cases "u < 256")
    case True
    then show ?thesis using Cons.IH by (simp add: length_code_def data_bytes_def one_byte)
  next
    case False
    then show ?thesis using Cons.IH by (simp add: length_code_def data_bytes_def two_bytes)
  qed
qed

lemma code_bits:
  fixes k :: byte
  assumes "a < 2" "b < 2" "c < 2" "d < 2"
  defines "k \<equiv> of_nat a OR push_bit 2 (of_nat b OR push_bit 2 (of_nat c OR push_bit 2 (of_nat d OR push_bit 2 0)))"
  shows "unat (k AND 3) = a" "unat (drop_bit 2 k AND 3) = b"
        "unat (drop_bit 4 k AND 3) = c" "unat (drop_bit 6 k AND 3) = d"
proof -
  from assms(1-4) have "(a = 0 \<or> a = 1) \<and> (b = 0 \<or> b = 1) \<and> (c = 0 \<or> c = 1) \<and> (d = 0 \<or> d = 1)"
    by auto
  then show "unat (k AND 3) = a" "unat (drop_bit 2 k AND 3) = b"
        "unat (drop_bit 4 k AND 3) = c" "unat (drop_bit 6 k AND 3) = d"
    unfolding k_def by (elim conjE disjE; simp)+
qed

lemma length_code_less_2: "length_code u < 2"
  by (simp add: length_code_def)

lemma length_codes_descriptors:
  "length_codes (length us) (descriptors us) = map length_code us"
proof (induction us rule: descriptors.induct, goal_cases)
  case (1 a b c d rest)
  note cb = code_bits [OF length_code_less_2 [of a] length_code_less_2 [of b]
                          length_code_less_2 [of c] length_code_less_2 [of d]]
  show ?case using 1 cb by simp
next
  case 2
  show ?case by simp
next
  case (3 v)
  note cb = code_bits [OF length_code_less_2 [of v], of 0 0 0]
  show ?case using cb by simp
next
  case (4 v va)
  note cb = code_bits [OF length_code_less_2 [of v] length_code_less_2 [of va], of 0 0]
  show ?case using cb by simp
next
  case (5 v va vb)
  note cb = code_bits [OF length_code_less_2 [of v] length_code_less_2 [of va]
                          length_code_less_2 [of vb], of 0]
  show ?case using cb by simp
qed

lemma decode_transform_encode:
  "decode_transform (length samples) (svb16_encode samples)
     = Some (length (svb16_encode samples), samples)"
proof -
  let ?us = "map zigzag (delta 0 samples)"
  have n: "length ?us = length samples" by (simp add: length_delta)
  have k: "length (descriptors ?us) = (length samples + 3) div 4"
    by (simp add: length_descriptors length_delta)
  have c: "length_codes (length samples) (descriptors ?us) = map length_code ?us"
    using length_codes_descriptors [of ?us] by (simp only: n)
  have r: "read_values (map length_code ?us) (concat (map data_bytes ?us)) = Some (?us, [])"
    using read_values_data_bytes [of ?us "[]"] by simp
  show ?thesis
    using k c r undelta_delta [of 0 samples]
    by (simp add: decode_transform_def svb16_encode_def Let_def)
qed

text \<open>
  With a lossless compressor, what \<^verbatim>\<open>compress_signal\<close> returns passes the two compressor
  steps of \<^verbatim>\<open>decompress_signal\<close>, and a decoder that is told the number of samples
  consumes the whole intermediate buffer and yields the samples. What the source's
  \<^verbatim>\<open>decompress_signal\<close> lacks is that number.
\<close>

lemma round_trip_given_sample_count:
  assumes "lossless Z"
    and "compress_signal Z level compression_size samples = Returned (Some (out, n))"
  shows "\<exists>intermediate.
           ZSTD_getFrameContentSize Z out = Some (length intermediate) \<and>
           ZSTD_decompress Z (length intermediate) out = Some intermediate \<and>
           decode_transform (length samples) intermediate = Some (length intermediate, samples)"
proof -
  from compress_signal_Returned [OF assms(2)] obtain b where
    "ZSTD_compress Z b (svb16_encode samples) level = Some out"
    by blast
  with assms(1) have "ZSTD_getFrameContentSize Z out = Some (length (svb16_encode samples))"
    and "ZSTD_decompress Z (length (svb16_encode samples)) out = Some (svb16_encode samples)"
    unfolding lossless_def by blast+
  then show ?thesis using decode_transform_encode [of samples] by blast
qed

lemma stored_frames_lossless: "lossless stored_frames"
  by (auto simp: lossless_def stored_frames_def unat_byte_of_length split: if_splits)

section \<open>Properties of the signal table writer\<close>

subsection \<open>The bookkeeping is kept by every call\<close>

lemma consistent_new_writer: "consistent new_writer"
  by (simp add: consistent_def new_writer_def)

lemma length_all_rows:
  "consistent w \<Longrightarrow> length (all_rows w) = m_flushed_row_count w + m_current_batch_row_count w"
  by (simp add: consistent_def all_rows_def)

lemma add_read_closed: "m_closed w \<Longrightarrow> add_read codec w rid samples = (Inl WriterClosed, w)"
  by (simp add: add_read_def)

lemma add_read_Inl: "add_read codec w rid samples = (Inl e, w') \<Longrightarrow> w' = w"
  by (auto simp: add_read_def Let_def split: if_splits option.splits)

lemma add_read_Inr:
  assumes "add_read codec w rid samples = (Inr i, w')"
  shows "\<not> m_closed w"
    and "\<exists>payload. codec samples = Some payload \<and>
           w' = w\<lparr>m_read_id_builder := m_read_id_builder w @ [rid],
                  m_signal_builder := m_signal_builder w @ [payload],
                  m_samples_builder := m_samples_builder w @ [of_nat (length samples)],
                  m_current_batch_row_count := m_current_batch_row_count w + 1\<rparr>"
    and "i = m_flushed_row_count w + m_current_batch_row_count w"
    and "i = m_flushed_row_count w' + m_current_batch_row_count w' - 1"
  using assms by (auto simp: add_read_def Let_def split: if_splits option.splits)

lemma add_read_appends_row:
  assumes "consistent w" and "add_read codec w rid samples = (Inr i, w')"
  shows "i = length (all_rows w)"
    and "\<exists>payload. codec samples = Some payload \<and>
           all_rows w' = all_rows w @ [(rid, payload, of_nat (length samples))]"
    and "consistent w'"
proof -
  from add_read_Inr(2) [OF assms(2)] obtain payload where
    p: "codec samples = Some payload" and
    w': "w' = w\<lparr>m_read_id_builder := m_read_id_builder w @ [rid],
                  m_signal_builder := m_signal_builder w @ [payload],
                  m_samples_builder := m_samples_builder w @ [of_nat (length samples)],
                  m_current_batch_row_count := m_current_batch_row_count w + 1\<rparr>"
    by blast
  show "i = length (all_rows w)"
    using add_read_Inr(3) [OF assms(2)] length_all_rows [OF assms(1)] by simp
  have "all_rows w' = all_rows w @ [(rid, payload, of_nat (length samples))]"
    using assms(1) by (simp add: w' all_rows_def consistent_def)
  with p show "\<exists>payload. codec samples = Some payload \<and>
           all_rows w' = all_rows w @ [(rid, payload, of_nat (length samples))]"
    by blast
  show "consistent w'"
    using assms(1) add_read_Inr(1) [OF assms(2)] by (simp add: w' consistent_def)
qed

lemma add_read_consistent:
  "consistent w \<Longrightarrow> consistent (snd (add_read codec w rid samples))"
proof -
  assume c: "consistent w"
  obtain r w' where a: "add_read codec w rid samples = (r, w')" by (cases "add_read codec w rid samples")
  show ?thesis
  proof (cases r)
    case (Inl e)
    with a have "w' = w" using add_read_Inl by blast
    with a c show ?thesis by simp
  next
    case (Inr i)
    with a c show ?thesis using add_read_appends_row(3) [of w codec rid samples i w'] by simp
  qed
qed

lemma flush_all_rows: "all_rows (snd (flush sink_accepts w)) = all_rows w"
  by (simp add: flush_def all_rows_def batch_rows_def)

lemma flush_consistent: "consistent w \<Longrightarrow> consistent (snd (flush sink_accepts w))"
  by (simp add: flush_def consistent_def batch_rows_def)

lemma flush_Inl: "fst (flush sink_accepts w) = Inl e \<Longrightarrow> snd (flush sink_accepts w) = w"
  by (simp add: flush_def split: if_splits)

lemma flush_closed: "m_closed (snd (flush sink_accepts w)) = m_closed w"
  by (simp add: flush_def)

lemma flush_Inr_empties:
  "fst (flush sink_accepts w) = Inr u \<Longrightarrow> m_current_batch_row_count (snd (flush sink_accepts w)) = 0"
  by (simp add: flush_def split: if_splits)

lemma close_all_rows: "all_rows (snd (close sink_accepts w)) = all_rows w"
proof -
  obtain r w' where f: "flush sink_accepts w = (r, w')" by (cases "flush sink_accepts w")
  then have "all_rows w' = all_rows w" using flush_all_rows [of sink_accepts w] by simp
  then show ?thesis
    using f by (cases r) (simp_all add: close_def all_rows_def)
qed

lemma close_consistent: "consistent w \<Longrightarrow> consistent (snd (close sink_accepts w))"
proof -
  assume c: "consistent w"
  obtain r w' where f: "flush sink_accepts w = (r, w')" by (cases "flush sink_accepts w")
  then have c': "consistent w'" using flush_consistent [OF c, of sink_accepts] by simp
  show ?thesis
  proof (cases r)
    case (Inl e)
    with f c c' show ?thesis by (simp add: close_def)
  next
    case (Inr u)
    with f have "m_current_batch_row_count w' = 0"
      using flush_Inr_empties [of sink_accepts w u] by simp
    with f c c' Inr show ?thesis by (simp add: close_def consistent_def)
  qed
qed

lemma close_Inl: "fst (close sink_accepts w) = Inl e \<Longrightarrow> snd (close sink_accepts w) = w"
proof -
  assume a: "fst (close sink_accepts w) = Inl e"
  obtain r w' where f: "flush sink_accepts w = (r, w')" by (cases "flush sink_accepts w")
  with a have "\<not> m_closed w" and "r = Inl e"
    by (auto simp: close_def split: if_splits sum.splits)
  with f have "w' = w" using flush_Inl [of sink_accepts w e] by simp
  with f \<open>r = Inl e\<close> \<open>\<not> m_closed w\<close> show ?thesis by (simp add: close_def)
qed

lemma close_Inr: "fst (close sink_accepts w) = Inr u \<Longrightarrow> m_closed (snd (close sink_accepts w))"
proof -
  assume a: "fst (close sink_accepts w) = Inr u"
  obtain r w' where f: "flush sink_accepts w = (r, w')" by (cases "flush sink_accepts w")
  show ?thesis using a f by (cases r) (auto simp: close_def split: if_splits)
qed

subsection \<open>A closed writer stays as it is\<close>

lemma flush_on_closed: "m_closed w \<Longrightarrow> flush sink_accepts w = (Inl WriterClosed, w)"
  by (simp add: flush_def)

lemma close_on_closed: "m_closed w \<Longrightarrow> close sink_accepts w = (Inr (), w)"
  by (simp add: close_def)

lemma run_on_closed:
  "m_closed w \<Longrightarrow> snd (run codec w calls) = w \<and> returned_indices (fst (run codec w calls)) = []"
proof (induction calls)
  case Nil
  show ?case by simp
next
  case (Cons c calls)
  show ?case
  proof (cases c)
    case (Add_read rid samples)
    with Cons show ?thesis
      by (cases "run codec w calls") (simp add: add_read_closed)
  next
    case (Flush ok)
    with Cons show ?thesis by (simp add: flush_on_closed)
  next
    case (Close ok)
    with Cons show ?thesis by (simp add: close_on_closed)
  qed
qed

subsection \<open>Row indices along a sequence of calls\<close>

lemma run_rows:
  "consistent w \<Longrightarrow> run codec w calls = (rs, w') \<Longrightarrow>
     consistent w' \<and> (\<exists>more. all_rows w' = all_rows w @ more) \<and>
     returned_indices rs = [length (all_rows w)..<length (all_rows w')]"
proof (induction calls arbitrary: w rs w')
  case Nil
  then show ?case by simp
next
  case (Cons c calls)
  show ?case
  proof (cases c)
    case (Add_read rid samples)
    obtain r w1 where a: "add_read codec w rid samples = (r, w1)"
      by (cases "add_read codec w rid samples")
    obtain rs1 where r1: "run codec w1 calls = (rs1, w')" and rs: "rs = r # rs1"
      using Cons.prems(2) Add_read a by (auto split: prod.splits)
    have c1: "consistent w1" using add_read_consistent [OF Cons.prems(1), of codec rid samples] a by simp
    note ih = Cons.IH [OF c1 r1]
    show ?thesis
    proof (cases r)
      case (Inl e)
      with a have "w1 = w" using add_read_Inl by blast
      with ih rs Inl show ?thesis by simp
    next
      case (Inr i)
      from add_read_appends_row [OF Cons.prems(1) a [unfolded Inr]] obtain payload where
        i: "i = length (all_rows w)" and
        ar: "all_rows w1 = all_rows w @ [(rid, payload, of_nat (length samples))]"
        by blast
      from ih obtain more where m: "all_rows w' = all_rows w1 @ more" by blast
      have len: "length (all_rows w) < length (all_rows w')" using m ar by simp
      have "returned_indices rs = length (all_rows w) # [Suc (length (all_rows w))..<length (all_rows w')]"
        using ih rs Inr i ar by simp
      also have "\<dots> = [length (all_rows w)..<length (all_rows w')]"
        using len by (simp add: upt_conv_Cons)
      finally have "returned_indices rs = [length (all_rows w)..<length (all_rows w')]" .
      moreover have "\<exists>more. all_rows w' = all_rows w @ more" using m ar by simp
      ultimately show ?thesis using ih by blast
    qed
  next
    case (Flush ok)
    have c1: "consistent (snd (flush ok w))" by (rule flush_consistent [OF Cons.prems(1)])
    have r1: "run codec (snd (flush ok w)) calls = (rs, w')" using Cons.prems(2) Flush by simp
    show ?thesis using Cons.IH [OF c1 r1] by (simp add: flush_all_rows)
  next
    case (Close ok)
    have c1: "consistent (snd (close ok w))" by (rule close_consistent [OF Cons.prems(1)])
    have r1: "run codec (snd (close ok w)) calls = (rs, w')" using Cons.prems(2) Close by simp
    show ?thesis using Cons.IH [OF c1 r1] by (simp add: close_all_rows)
  qed
qed

lemma closed_rows_emitted:
  "consistent w \<Longrightarrow> m_closed w \<Longrightarrow> all_rows w = concat (map batch_rows (m_emitted w))"
  by (auto simp: consistent_def all_rows_def)

lemma returned_indices_append:
  "returned_indices (rs @ rs') = returned_indices rs @ returned_indices rs'"
  by (induction rs rule: returned_indices.induct) simp_all

lemma returned_indices_all_Inr:
  "(\<forall>r\<in>set rs. \<not> isl r) \<Longrightarrow> length (returned_indices rs) = length rs"
  by (induction rs rule: returned_indices.induct) simp_all

lemma all_rows_new_writer: "all_rows new_writer = []"
  by (simp add: all_rows_def new_writer_def)

text \<open>
  C5. Take any sequence of calls on a new writer, then an \<open>add_read\<close> that succeeds, then
  any further calls. The index this \<open>add_read\<close> returns is the number of \<open>add_read\<close>
  calls that succeeded before it (the number of earlier \<open>add_read\<close> calls when none of
  them failed), whatever flushes happened in between, and it is
  \<open>flushed_row_count + current_batch_row_count - 1\<close> right after the call. The indices
  returned so far are 0, 1, 2, ... in call order. In the rows of the table (those the
  sink has taken, followed by those still buffered) the row at that index is the record
  of this call, and it is still there after the further calls; once the writer is closed
  all rows are in the sink.
\<close>

theorem add_read_returns_permanent_row_index:
  "run codec new_writer before = (rs1, w1) \<Longrightarrow>
   add_read codec w1 rid samples = (Inr i, w2) \<Longrightarrow>
   run codec w2 after = (rs2, w3) \<Longrightarrow>
     i = length (returned_indices rs1) \<and>
     ((\<forall>r\<in>set rs1. \<not> isl r) \<longrightarrow> i = length rs1) \<and>
     i = m_flushed_row_count w2 + m_current_batch_row_count w2 - 1 \<and>
     returned_indices (rs1 @ Inr i # rs2) = [0..<length (all_rows w3)] \<and>
     i < length (all_rows w3) \<and>
     (\<exists>payload. codec samples = Some payload \<and>
        all_rows w3 ! i = (rid, payload, of_nat (length samples))) \<and>
     (m_closed w3 \<longrightarrow> all_rows w3 = concat (map batch_rows (m_emitted w3)))"
proof -
  assume r1: "run codec new_writer before = (rs1, w1)"
    and a: "add_read codec w1 rid samples = (Inr i, w2)"
    and r2: "run codec w2 after = (rs2, w3)"
  from run_rows [OF consistent_new_writer r1]
  have c1: "consistent w1" and i1: "returned_indices rs1 = [0..<length (all_rows w1)]"
    by (simp_all add: all_rows_new_writer)
  from add_read_appends_row [OF c1 a] obtain payload where
    i: "i = length (all_rows w1)" and p: "codec samples = Some payload" and
    ar: "all_rows w2 = all_rows w1 @ [(rid, payload, of_nat (length samples))]" and
    c2: "consistent w2"
    by blast
  from run_rows [OF c2 r2] obtain more where
    c3: "consistent w3" and m: "all_rows w3 = all_rows w2 @ more" and
    i2: "returned_indices rs2 = [length (all_rows w2)..<length (all_rows w3)]"
    by blast
  have l2: "length (all_rows w2) = Suc i" using ar i by simp
  have l3: "i < length (all_rows w3)" using m l2 by simp
  have "returned_indices (rs1 @ Inr i # rs2) = [0..<i] @ i # [Suc i..<length (all_rows w3)]"
    using i1 i2 i l2 by (simp add: returned_indices_append)
  also have "\<dots> = [0..<i] @ [i..<length (all_rows w3)]"
    using l3 by (simp add: upt_conv_Cons)
  also have "\<dots> = [0..<length (all_rows w3)]"
    using l3 upt_add_eq_append [of 0 i "length (all_rows w3) - i"] by simp
  finally have all: "returned_indices (rs1 @ Inr i # rs2) = [0..<length (all_rows w3)]" .
  have nth: "all_rows w3 ! i = (rid, payload, of_nat (length samples))"
    using m ar i by (simp add: nth_append)
  have cl: "m_closed w3 \<longrightarrow> all_rows w3 = concat (map batch_rows (m_emitted w3))"
    using closed_rows_emitted [OF c3] by blast
  have ok: "(\<forall>r\<in>set rs1. \<not> isl r) \<longrightarrow> i = length rs1"
    using i i1 returned_indices_all_Inr [of rs1] by simp
  show ?thesis
    using i i1 ok add_read_Inr(4) [OF a] all l3 p nth cl by simp
qed

theorem add_read_returns_permanent_row_index_witness:
  "fst (run Some new_writer [Add_read 7 [1, 2], Flush False, Flush True, Add_read 8 [3]])
     = [Inr 0, Inr 1]
   \<and> fst (add_read Some
          (snd (run Some new_writer [Add_read 7 [1, 2], Flush False, Flush True, Add_read 8 [3]]))
          9 [4, 5, 6]) = Inr 2
   \<and> all_rows
        (snd (run Some
                (snd (add_read Some
                        (snd (run Some new_writer
                                [Add_read 7 [1, 2], Flush False, Flush True, Add_read 8 [3]]))
                        9 [4, 5, 6]))
                [Flush True, Add_read 10 [], Close True])) ! 2
       = (9, [4, 5, 6], 3)
   \<and> returned_indices
        (fst (run Some new_writer [Add_read 7 [1, 2], Flush False, Flush True, Add_read 8 [3]])
         @ Inr 2 #
         fst (run Some
                (snd (add_read Some
                        (snd (run Some new_writer
                                [Add_read 7 [1, 2], Flush False, Flush True, Add_read 8 [3]]))
                        9 [4, 5, 6]))
                [Flush True, Add_read 10 [], Close True]))
       = [0, 1, 2, 3]"
proof -
  let ?B = "[Add_read 7 [1, 2], Flush False, Flush True, Add_read 8 [3]]"
  let ?A = "[Flush True, Add_read 10 [], Close True]"
  let ?w1 = "snd (run Some new_writer ?B) :: (sample list) SignalTableWriter"
  let ?w2 = "snd (add_read Some ?w1 9 [4, 5, 6])"
  have e1: "run Some new_writer ?B = (fst (run Some new_writer ?B), ?w1)" by simp
  have b: "fst (run Some new_writer ?B) = [Inr 0, Inr 1]"
    by (simp add: add_read_def flush_def new_writer_def)
  have i: "fst (add_read Some ?w1 9 [4, 5, 6]) = Inr 2"
    by (simp add: add_read_def flush_def new_writer_def)
  then have e2: "add_read Some ?w1 9 [4, 5, 6] = (Inr 2, ?w2)"
    by (metis prod.collapse)
  have e3: "run Some ?w2 ?A = (fst (run Some ?w2 ?A), snd (run Some ?w2 ?A))" by simp
  have l: "length (all_rows (snd (run Some ?w2 ?A))) = 4"
    by (simp add: add_read_def flush_def close_def new_writer_def all_rows_def batch_rows_def)
  show ?thesis
    using add_read_returns_permanent_row_index [OF e1 e2 e3] i l b
    by (simp add: upt4)
qed

text \<open>
  C8. After a \<open>close\<close> that succeeded the writer is closed; every \<open>add_read\<close> and every
  \<open>flush\<close> on it fails with the writer-closed error and returns the writer as it was;
  a further \<open>close\<close> changes nothing either, and no sequence of calls leads to another
  state or returns a row index.
\<close>

theorem closed_writer_rejects_every_call:
  "close sink_accepts w = (Inr (), c) \<Longrightarrow>
     m_closed c \<and>
     add_read codec c rid samples = (Inl WriterClosed, c) \<and>
     flush sink_accepts' c = (Inl WriterClosed, c) \<and>
     snd (close sink_accepts' c) = c \<and>
     snd (run codec c calls) = c \<and>
     returned_indices (fst (run codec c calls)) = []"
proof -
  assume a: "close sink_accepts w = (Inr (), c)"
  then have cl: "m_closed c" using close_Inr [of sink_accepts w "()"] by simp
  show ?thesis
    using cl add_read_closed [OF cl] flush_on_closed [OF cl] close_on_closed [OF cl]
      run_on_closed [OF cl]
    by simp
qed

theorem closed_writer_rejects_every_call_witness:
  "close True (snd (add_read Some new_writer 7 [1, 2]))
     = (Inr (),
        \<lparr>m_read_id_builder = [], m_signal_builder = [], m_samples_builder = [],
         m_flushed_row_count = 1, m_current_batch_row_count = 0, m_closed = True,
         m_emitted = [\<lparr>read_id_column = [7], signal_column = [[1, 2]], samples_column = [2]\<rparr>],
         m_end_of_stream = True\<rparr>)
   \<and> add_read Some
        \<lparr>m_read_id_builder = [], m_signal_builder = [], m_samples_builder = [],
         m_flushed_row_count = 1, m_current_batch_row_count = 0, m_closed = True,
         m_emitted = [\<lparr>read_id_column = [7], signal_column = [[1, 2]], samples_column = [2]\<rparr>],
         m_end_of_stream = True\<rparr> 8 [3]
     = (Inl WriterClosed,
        \<lparr>m_read_id_builder = [], m_signal_builder = [], m_samples_builder = [],
         m_flushed_row_count = 1, m_current_batch_row_count = 0, m_closed = True,
         m_emitted = [\<lparr>read_id_column = [7], signal_column = [[1, 2]], samples_column = [2]\<rparr>],
         m_end_of_stream = True\<rparr>)"
proof -
  have c: "close True (snd (add_read Some new_writer 7 [1, 2]))
     = (Inr (),
        \<lparr>m_read_id_builder = [], m_signal_builder = [], m_samples_builder = [],
         m_flushed_row_count = 1, m_current_batch_row_count = 0, m_closed = True,
         m_emitted = [\<lparr>read_id_column = [7], signal_column = [[1, 2 :: sample]], samples_column = [2]\<rparr>],
         m_end_of_stream = True\<rparr>)"
    by (simp add: close_def flush_def add_read_def new_writer_def)
  show ?thesis
    using closed_writer_rejects_every_call [OF c, of Some 8 "[3]" True "[]"] c
    by simp
qed

text \<open>
  C9. When the sink rejects the batch of an open writer with buffered rows, \<open>flush\<close> fails
  with the sink error and the writer is unchanged, so that a second \<open>flush\<close> which the
  sink accepts hands over exactly the rows that were buffered. Whenever \<open>flush\<close> fails
  with the sink error the writer is unchanged. With no buffered row \<open>flush\<close> changes
  nothing, and succeeds on an open writer.
\<close>

theorem flush_failure_keeps_buffered_rows:
  "(\<not> m_closed w \<and> m_current_batch_row_count w \<noteq> 0 \<longrightarrow>
       flush False w = (Inl SinkError, w) \<and>
       fst (flush True (snd (flush False w))) = Inr () \<and>
       m_emitted (snd (flush True (snd (flush False w))))
         = m_emitted w @ [\<lparr>read_id_column = m_read_id_builder w,
                            signal_column = m_signal_builder w,
                            samples_column = m_samples_builder w\<rparr>])
   \<and> (fst (flush sink_accepts v) = Inl SinkError \<longrightarrow> snd (flush sink_accepts v) = v)
   \<and> (m_current_batch_row_count u = 0 \<longrightarrow>
        snd (flush sink_accepts' u) = u \<and>
        (\<not> m_closed u \<longrightarrow> fst (flush sink_accepts' u) = Inr ()))"
  by (auto simp: flush_def)

theorem flush_failure_keeps_buffered_rows_witness:
  "flush False (snd (add_read Some new_writer 7 [1, 2]))
     = (Inl SinkError, snd (add_read Some new_writer 7 [1, 2]))
   \<and> m_emitted (snd (flush True (snd (flush False (snd (add_read Some new_writer 7 [1, 2]))))))
       = [\<lparr>read_id_column = [7], signal_column = [[1, 2]], samples_column = [2]\<rparr>]
   \<and> flush True (new_writer :: (sample list) SignalTableWriter) = (Inr (), new_writer)"
  using flush_failure_keeps_buffered_rows
    [of "snd (add_read Some new_writer 7 [1, 2])" False
        "snd (add_read Some new_writer 7 [1, 2]) :: (sample list) SignalTableWriter"
        "new_writer :: (sample list) SignalTableWriter" True]
  by (simp add: flush_def add_read_def new_writer_def)

end
